theory Spec2Isabelle
  imports Complex_Main "HOL-Library.Multiset" "HOL-Library.Log_Nat"
begin

section \<open>JavaScript numbers\<close>

text \<open>
  Every number of the application is an IEEE 754 double. A finite double is the
  rational it denotes; \<open>fl\<close> rounds a rational to the nearest double, ties to the
  even significand (53 bits). The exponent range is not bounded in the model:
  overflow to an infinity and gradual underflow need magnitudes above \<open>10^308\<close> or
  below \<open>10^-308\<close>, which millisecond counts, hours and head counts do not reach. The
  sign of zero is not modelled either; the zero divisors of this program are empty
  counts, which are \<open>+0\<close>.
\<close>

definition ilog2 :: "rat \<Rightarrow> int" where
  \<comment> \<open>for \<open>0 < x\<close>, the exponent \<open>e\<close> with \<open>2^e \<le> x < 2^(e+1)\<close>\<close>
  "ilog2 x = (let (p, q) = quotient_of x; e0 = bitlen p - bitlen q
              in if 2 powi e0 \<le> x then e0 else e0 - 1)"

definition rne :: "rat \<Rightarrow> int" where
  \<comment> \<open>round to the nearest integer, ties to even\<close>
  "rne y = (let f = \<lfloor>y\<rfloor>; r = y - of_int f
            in if r < 1 / 2 then f else if 1 / 2 < r then f + 1
               else if even f then f else f + 1)"

definition fl :: "rat \<Rightarrow> rat" where
  "fl x = (if x = 0 then 0
           else let q = 2 powi (ilog2 \<bar>x\<bar> - 52) in of_int (rne (x / q)) * q)"

datatype jsnum = Fin rat | PosInf | NegInf | NaN

fun num_neg :: "jsnum \<Rightarrow> jsnum" where
  "num_neg (Fin a) = Fin (- a)"
| "num_neg PosInf = NegInf"
| "num_neg NegInf = PosInf"
| "num_neg NaN = NaN"

fun num_add :: "jsnum \<Rightarrow> jsnum \<Rightarrow> jsnum" where
  "num_add (Fin a) (Fin b) = Fin (fl (a + b))"
| "num_add NaN y = NaN"
| "num_add x NaN = NaN"
| "num_add PosInf NegInf = NaN"
| "num_add NegInf PosInf = NaN"
| "num_add PosInf y = PosInf"
| "num_add NegInf y = NegInf"
| "num_add (Fin a) y = y"

definition num_sub :: "jsnum \<Rightarrow> jsnum \<Rightarrow> jsnum" where
  "num_sub x y = num_add x (num_neg y)"

definition inf_of_sign :: "bool \<Rightarrow> jsnum" where
  "inf_of_sign negative = (if negative then NegInf else PosInf)"

fun num_mul :: "jsnum \<Rightarrow> jsnum \<Rightarrow> jsnum" where
  "num_mul (Fin a) (Fin b) = Fin (fl (a * b))"
| "num_mul NaN y = NaN"
| "num_mul x NaN = NaN"
| "num_mul (Fin a) y = (if a = 0 then NaN else inf_of_sign ((a < 0) \<noteq> (y = NegInf)))"
| "num_mul x (Fin b) = (if b = 0 then NaN else inf_of_sign ((b < 0) \<noteq> (x = NegInf)))"
| "num_mul x y = inf_of_sign ((x = NegInf) \<noteq> (y = NegInf))"

fun num_div :: "jsnum \<Rightarrow> jsnum \<Rightarrow> jsnum" where
  "num_div (Fin a) (Fin b) =
     (if b = 0 then (if a = 0 then NaN else inf_of_sign (a < 0)) else Fin (fl (a / b)))"
| "num_div NaN y = NaN"
| "num_div x NaN = NaN"
| "num_div (Fin a) y = Fin 0"
| "num_div x (Fin b) = inf_of_sign ((b < 0) \<noteq> (x = NegInf))"
| "num_div x y = NaN"

text \<open>
  \<open>Math.round\<close> returns the integer nearest to its argument, the one closer to
  \<open>+\<infinity>\<close> of two that are equally near: the floor of \<open>x + 1/2\<close>, computed exactly.
\<close>

fun Math_round :: "jsnum \<Rightarrow> jsnum" where
  "Math_round (Fin x) = Fin (of_int \<lfloor>x + 1 / 2\<rfloor>)"
| "Math_round x = x"

definition num_of_int :: "int \<Rightarrow> jsnum" where
  \<comment> \<open>a count or a time value: an integer below \<open>2^53\<close> in magnitude is a double\<close>
  "num_of_int n = Fin (of_int n)"

subsection \<open>Rounding to a double: error bound, sign, integers\<close>

lemma pow2_pos: "0 < (2::rat) powi k"
  by simp

lemma pow2_add: "(2::rat) powi (a + b) = 2 powi a * 2 powi b"
  by (simp add: power_int_add)

lemma bitlen_pow2:
  assumes p: "0 < p"
  shows "(2::rat) powi (bitlen p - 1) \<le> of_int p \<and> of_int p < (2::rat) powi bitlen p"
proof -
  have b: "1 \<le> bitlen p" using p bitlen_eq_zero_iff [of p] bitlen_nonneg [of p] by linarith
  from bitlen_bounds [OF p] have i: "2 ^ nat (bitlen p - 1) \<le> p" "p < 2 ^ nat (bitlen p)"
    by simp_all
  have "(of_int (2 ^ nat (bitlen p - 1)) :: rat) \<le> of_int p"
    using i(1) by (simp only: of_int_le_iff)
  then have lo: "(2::rat) ^ nat (bitlen p - 1) \<le> of_int p" by simp
  have "(of_int p :: rat) < of_int (2 ^ nat (bitlen p))"
    using i(2) by (simp only: of_int_less_iff)
  then have hi: "(of_int p :: rat) < 2 ^ nat (bitlen p)" by simp
  have "(2::rat) powi (bitlen p - 1) = 2 ^ nat (bitlen p - 1)"
    using b by (simp add: power_int_def)
  moreover have "(2::rat) powi (bitlen p) = 2 ^ nat (bitlen p)"
    using b by (simp add: power_int_def)
  ultimately show ?thesis using lo hi by (simp only:)
qed

lemma ilog2_spec:
  assumes "0 < x"
  shows "2 powi (ilog2 x) \<le> x \<and> x < 2 powi (ilog2 x + 1)"
proof -
  obtain p q where pq: "quotient_of x = (p, q)" by (cases "quotient_of x")
  have q: "0 < q" using pq by (rule quotient_of_denom_pos)
  have x: "x = of_int p / of_int q" using pq by (rule quotient_of_div)
  have p: "0 < p" using assms q x by (simp add: zero_less_divide_iff)
  define P Q where "P = bitlen p" and "Q = bitlen q"
  have bp: "2 powi (P - 1) \<le> (of_int p :: rat)" "(of_int p :: rat) < 2 powi P"
    using bitlen_pow2 [OF p] by (simp_all add: P_def)
  have bq: "2 powi (Q - 1) \<le> (of_int q :: rat)" "(of_int q :: rat) < 2 powi Q"
    using bitlen_pow2 [OF q] by (simp_all add: Q_def)
  have qpos: "0 < (of_int q :: rat)" using q by simp
  have up: "x < 2 powi (P - Q + 1)"
  proof -
    have "of_int p < (2::rat) powi (P - Q + 1) * 2 powi (Q - 1)"
      using bp(2) by (simp add: pow2_add [symmetric])
    also have "\<dots> \<le> 2 powi (P - Q + 1) * of_int q"
      using bq(1) by (simp add: mult_left_mono)
    finally show ?thesis unfolding x using qpos by (simp add: pos_divide_less_eq)
  qed
  have lo: "2 powi (P - Q - 1) < x"
  proof -
    have "(2::rat) powi (P - Q - 1) * of_int q < 2 powi (P - Q - 1) * 2 powi Q"
      using bq(2) by (simp add: mult_strict_left_mono)
    also have "\<dots> = 2 powi (P - 1)" by (simp add: pow2_add [symmetric])
    also have "\<dots> \<le> of_int p" by (rule bp(1))
    finally show ?thesis unfolding x using qpos by (simp add: pos_less_divide_eq)
  qed
  show ?thesis
  proof (cases "2 powi (P - Q) \<le> x")
    case True
    then have "ilog2 x = P - Q" by (simp add: ilog2_def pq P_def Q_def)
    with True up show ?thesis by simp
  next
    case False
    then have "ilog2 x = P - Q - 1" by (simp add: ilog2_def pq P_def Q_def)
    with False lo show ?thesis by simp
  qed
qed

lemma rne_err: "\<bar>of_int (rne y) - y\<bar> \<le> 1 / 2"
proof -
  have "of_int \<lfloor>y\<rfloor> \<le> y" "y < of_int \<lfloor>y\<rfloor> + 1" by linarith+
  then show ?thesis unfolding rne_def Let_def by (auto simp: abs_le_iff)
qed

lemma rne_int: "rne (of_int n) = n"
  by (simp add: rne_def)

lemma rne_mono_ge: "of_int n \<le> y \<Longrightarrow> n \<le> rne y"
proof -
  assume "of_int n \<le> y"
  then have "n \<le> \<lfloor>y\<rfloor>" by (simp add: le_floor_iff)
  then show ?thesis unfolding rne_def Let_def by auto
qed

lemma rne_mono_le: "y \<le> of_int n \<Longrightarrow> rne y \<le> n"
proof -
  assume a: "y \<le> of_int n"
  show ?thesis
  proof (cases "y = of_int n")
    case True
    then show ?thesis by (simp add: rne_int)
  next
    case False
    with a have "y < of_int n" by simp
    then have "\<lfloor>y\<rfloor> < n" by (simp add: floor_less_iff)
    then show ?thesis unfolding rne_def Let_def by auto
  qed
qed

definition ulp_half :: rat where "ulp_half = 1 / 2 ^ 53"

lemma fl_err: "\<bar>fl x - x\<bar> \<le> \<bar>x\<bar> * ulp_half"
proof (cases "x = 0")
  case True
  then show ?thesis by (simp add: fl_def)
next
  case False
  define e where "e = ilog2 \<bar>x\<bar>"
  define q :: rat where "q = 2 powi (e - 52)"
  have qpos: "0 < q" by (simp add: q_def)
  have fx: "fl x = of_int (rne (x / q)) * q"
    using False by (simp add: fl_def e_def q_def Let_def)
  have "fl x - x = (of_int (rne (x / q)) - x / q) * q"
    using qpos by (simp add: fx field_simps)
  then have "\<bar>fl x - x\<bar> = \<bar>of_int (rne (x / q)) - x / q\<bar> * q"
    using qpos by (simp add: abs_mult abs_of_pos)
  also have "\<dots> \<le> 1 / 2 * q"
    using rne_err [of "x / q"] qpos by (simp add: mult_right_mono)
  also have "\<dots> = 2 powi e * ulp_half"
  proof -
    have "e - 52 = e + (- 52)" by simp
    then have "q = 2 powi e * 2 powi (- 52)" unfolding q_def by (simp only: pow2_add)
    moreover have "(2::rat) powi (- 52) = 1 / 2 ^ 52" by (simp add: power_int_minus_divide)
    ultimately show ?thesis by (simp add: ulp_half_def)
  qed
  also have "\<dots> \<le> \<bar>x\<bar> * ulp_half"
  proof -
    have "2 powi e \<le> \<bar>x\<bar>" using ilog2_spec [of "\<bar>x\<bar>"] False by (simp add: e_def)
    then show ?thesis by (simp add: ulp_half_def mult_right_mono)
  qed
  finally show ?thesis .
qed


lemma fl_neg: assumes "x < 0" shows "fl x < 0"
proof -
  define q :: rat where "q = 2 powi (ilog2 \<bar>x\<bar> - 52)"
  have qpos: "0 < q" by (simp add: q_def)
  have fx: "fl x = of_int (rne (x / q)) * q"
    using assms by (simp add: fl_def q_def Let_def)
  have "x / q \<le> of_int 0" using assms qpos by (simp add: divide_le_0_iff)
  then have r0: "rne (x / q) \<le> 0" by (rule rne_mono_le)
  have "rne (x / q) \<noteq> 0"
  proof
    assume z: "rne (x / q) = 0"
    have "2 powi (ilog2 \<bar>x\<bar>) \<le> \<bar>x\<bar>" using ilog2_spec [of "\<bar>x\<bar>"] assms by simp
    moreover have "2 powi (ilog2 \<bar>x\<bar>) = q * 2 ^ 52"
    proof -
      have "(2::rat) powi ((ilog2 \<bar>x\<bar> - 52) + 52) = 2 powi (ilog2 \<bar>x\<bar> - 52) * 2 powi 52"
        by (rule pow2_add)
      then show ?thesis by (simp add: q_def)
    qed
    ultimately have "q * 2 ^ 52 \<le> \<bar>x\<bar>" by simp
    then have "2 ^ 52 \<le> \<bar>x\<bar> / q" using qpos by (simp add: pos_le_divide_eq mult.commute)
    then have "2 ^ 52 \<le> \<bar>x / q\<bar>" using qpos by (simp add: abs_of_pos)
    moreover have "\<bar>x / q\<bar> \<le> 1 / 2" using rne_err [of "x / q"] z by simp
    ultimately have "(2::rat) ^ 52 \<le> 1 / 2" by (rule order_trans)
    then show False by simp
  qed
  with r0 have "rne (x / q) < 0" by simp
  then have "(of_int (rne (x / q)) :: rat) < 0" by simp
  then show ?thesis unfolding fx using qpos by (simp add: mult_neg_pos)
qed

lemma fl_zero: "fl 0 = 0"
  by (simp add: fl_def)

lemma fl_nonpos: "x \<le> 0 \<Longrightarrow> fl x \<le> 0"
  using fl_neg [of x] fl_zero by (cases "x = 0") auto

lemma fl_int:
  assumes "\<bar>n\<bar> < 2 ^ 53"
  shows "fl (of_int n) = of_int n"
proof (cases "n = 0")
  case True
  then show ?thesis by (simp add: fl_def)
next
  case False
  define x :: rat where "x = of_int n"
  define e where "e = ilog2 \<bar>x\<bar>"
  have x0: "x \<noteq> 0" "0 < \<bar>x\<bar>" using False by (simp_all add: x_def)
  have "2 powi e \<le> \<bar>x\<bar>" using ilog2_spec [OF x0(2)] by (simp add: e_def)
  moreover have "\<bar>x\<bar> < 2 ^ 53"
  proof -
    have "(of_int \<bar>n\<bar> :: rat) < of_int (2 ^ 53)" using assms by (simp only: of_int_less_iff)
    then show ?thesis by (simp add: x_def)
  qed
  ultimately have "(2::rat) powi e < 2 powi 53" by simp
  then have "e < 53" by (rule power_int_le_imp_less_exp [rotated]) simp_all
  define k where "k = nat (52 - e)"
  have q: "(2::rat) powi (e - 52) = 1 / 2 ^ k"
  proof -
    have "e - 52 = - int k" using \<open>e < 53\<close> by (simp add: k_def)
    then show ?thesis by (simp add: power_int_minus_divide)
  qed
  have "x / (1 / 2 ^ k) = of_int (n * 2 ^ k)" by (simp add: x_def)
  then have "rne (x / (1 / 2 ^ k)) = n * 2 ^ k" by (simp only: rne_int)
  then have "fl x = of_int (n * 2 ^ k) * (1 / 2 ^ k)"
    using x0(1) by (simp add: fl_def Let_def e_def [symmetric] q)
  then show ?thesis by (simp add: x_def)
qed

lemma round_pct_nearest:
  fixes p w :: int
  assumes w: "0 < w" and p: "\<bar>p\<bar> \<le> 2 ^ 44"
  shows "\<bar>of_int \<lfloor>fl (fl (of_int p / of_int w) * 100) + 1 / 2\<rfloor> - 100 * of_int p / of_int w\<bar>
         \<le> (1 / 2 :: rat)"
proof -
  define P W :: rat where "P = of_int p" and "W = of_int w"
  define q where "q = fl (P / W)"
  define x where "x = fl (q * 100)"
  define n where "n = \<lfloor>x + 1 / 2\<rfloor>"
  define u where "u = ulp_half"
  have Wpos: "0 < W" using w by (simp add: W_def)
  have u: "0 < u" "u = 1 / 2 ^ 53" by (simp_all add: u_def ulp_half_def)
  define r where "r = \<bar>P / W\<bar>"
  have r0: "0 \<le> r" by (simp add: r_def)
  have e1: "\<bar>q - P / W\<bar> \<le> r * u" unfolding q_def r_def u_def by (rule fl_err)
  have e2: "\<bar>x - q * 100\<bar> \<le> \<bar>q * 100\<bar> * u" unfolding x_def u_def by (rule fl_err)
  have qb: "\<bar>q\<bar> \<le> r + r * u" using e1 unfolding r_def by linarith
  have "\<bar>q * 100\<bar> * u = \<bar>q\<bar> * (100 * u)" by (simp add: abs_mult)
  also have "\<dots> \<le> (r + r * u) * (100 * u)"
    using qb u(1) by (intro mult_right_mono) simp_all
  finally have e2': "\<bar>x - q * 100\<bar> \<le> (r + r * u) * (100 * u)" using e2 by linarith
  have "x - 100 * (P / W) = (x - q * 100) + 100 * (q - P / W)" by (simp add: algebra_simps)
  then have "\<bar>x - 100 * (P / W)\<bar> \<le> \<bar>x - q * 100\<bar> + \<bar>100 * (q - P / W)\<bar>"
    by (simp only: abs_triangle_ineq)
  also have "\<dots> = \<bar>x - q * 100\<bar> + 100 * \<bar>q - P / W\<bar>"
    by (simp only: abs_mult abs_numeral)
  also have "\<dots> \<le> (r + r * u) * (100 * u) + 100 * (r * u)"
    using e2' e1 by (intro add_mono mult_left_mono) simp_all
  also have "\<dots> = r * (200 * u + 100 * u * u)" by (simp add: algebra_simps)
  finally have d: "\<bar>x - 100 * (P / W)\<bar> \<le> r * (200 * u + 100 * u * u)" .
  have rP: "r * W = \<bar>P\<bar>" using Wpos by (simp add: r_def abs_divide abs_of_pos)
  have Pb: "\<bar>P\<bar> \<le> 2 ^ 44"
  proof -
    have "(of_int \<bar>p\<bar> :: rat) \<le> of_int (2 ^ 44)" using p by (simp only: of_int_le_iff)
    then show ?thesis by (simp add: P_def)
  qed
  have "\<bar>2 * W * x - 200 * P\<bar> = 2 * W * \<bar>x - 100 * (P / W)\<bar>"
  proof -
    have "2 * W * x - 200 * P = 2 * W * (x - 100 * (P / W))" using Wpos by (simp add: field_simps)
    then show ?thesis using Wpos by (simp add: abs_mult abs_of_pos)
  qed
  also have "\<dots> \<le> 2 * W * (r * (200 * u + 100 * u * u))"
    using d Wpos by (intro mult_left_mono) simp_all
  also have "\<dots> = (r * W) * (2 * (200 * u + 100 * u * u))"
    by (simp add: algebra_simps)
  also have "\<dots> = \<bar>P\<bar> * (2 * (200 * u + 100 * u * u))"
    by (simp only: rP)
  also have "\<dots> \<le> 2 ^ 44 * (2 * (200 * u + 100 * u * u))"
    using Pb u(1) by (intro mult_right_mono) simp_all
  also have "\<dots> < 1" by (simp add: u(2))
  finally have close: "\<bar>2 * W * x - 200 * P\<bar> < 1" .
  have n1: "of_int n \<le> x + 1 / 2" and n2: "x + 1 / 2 < of_int n + 1"
    unfolding n_def by linarith+
  have a1: "2 * W * of_int n \<le> 2 * W * x + W"
  proof -
    have "2 * W * of_int n \<le> 2 * W * (x + 1 / 2)" using n1 Wpos by (intro mult_left_mono) simp_all
    then show ?thesis by (simp add: algebra_simps)
  qed
  have a2: "2 * W * x + W < 2 * W * of_int n + 2 * W"
  proof -
    have "2 * W * (x + 1 / 2) < 2 * W * (of_int n + 1)" using n2 Wpos by (intro mult_strict_left_mono) simp_all
    then show ?thesis by (simp add: algebra_simps)
  qed
  have "(of_int (2 * w * n - 200 * p) :: rat) < of_int (w + 1)"
    using a1 close by (simp add: P_def W_def; linarith)
  then have i1: "2 * w * n - 200 * p \<le> w" by (simp only: of_int_less_iff; simp)
  have "(of_int (200 * p - 2 * w * n) :: rat) < of_int (w + 1)"
    using a2 close by (simp add: P_def W_def; linarith)
  then have i2: "200 * p - 2 * w * n \<le> w" by (simp only: of_int_less_iff; simp)
  have "\<bar>2 * w * n - 200 * p\<bar> \<le> w" using i1 i2 by linarith
  then have "(of_int \<bar>2 * w * n - 200 * p\<bar> :: rat) \<le> of_int w" by (simp only: of_int_le_iff)
  then have "\<bar>2 * W * of_int n - 200 * P\<bar> \<le> W" by (simp add: P_def W_def)
  moreover have "2 * W * of_int n - 200 * P = 2 * W * (of_int n - 100 * P / W)"
    using Wpos by (simp add: field_simps)
  ultimately have "2 * W * \<bar>of_int n - 100 * P / W\<bar> \<le> W"
    using Wpos by (simp add: abs_mult abs_of_pos)
  then have "\<bar>of_int n - 100 * P / W\<bar> \<le> 1 / 2" using Wpos by (simp add: field_simps)
  then show ?thesis by (simp add: n_def x_def q_def P_def W_def)
qed

section \<open>ECMAScript time values and the Date built-ins\<close>

text \<open>
  A \<open>Date\<close> holds a time value: milliseconds since 1970-01-01T00:00:00Z, an
  integer. The definitions below are the abstract operations of the ECMAScript
  specification (Day, TimeWithinDay, DaysInYear, DayFromYear, YearFromTime,
  InLeapYear, MonthFromTime, DateFromTime, WeekDay, HourFromTime, MakeDay,
  MakeDate). The specification defines \<open>YearFromTime t\<close> as the largest year whose
  first day is not after \<open>t\<close>; it is computed here by an upward search from a year
  that is not too large, and \<open>YearFromTime_spec\<close> and \<open>YearFromTime_eqI\<close>
  prove that the search finds the year of the specification. \<open>MakeDay\<close> is
  specified through a time value that falls on the first of the month; it is
  computed from the table of month starts, and \<open>in_month\<close> proves the
  specification's condition. The range check of time values (TimeClip) is not
  modelled: every time value is taken to be a valid date.
\<close>

definition msPerDay :: int where "msPerDay = 86400000"

definition msPerHour :: int where "msPerHour = 3600000"

definition Day :: "int \<Rightarrow> int" where "Day t = t div msPerDay"

definition TimeWithinDay :: "int \<Rightarrow> int" where "TimeWithinDay t = t mod msPerDay"

lemma div_succ:
  fixes x k :: int
  assumes "0 < k"
  shows "(x + 1) div k = (if (x + 1) mod k = 0 then x div k + 1 else x div k)"
proof (cases "x mod k = k - 1")
  case True
  have "k * (x div k) + x mod k = x" by simp
  with True have "x + 1 = k * (x div k) + k" by linarith
  then have e: "x + 1 = (x div k + 1) * k" by (simp add: algebra_simps)
  have d: "(x + 1) div k = x div k + 1"
    unfolding e using assms by simp
  have m: "(x + 1) mod k = 0"
    unfolding e by simp
  show ?thesis using d m by simp
next
  case False
  have "x mod k < k" "0 \<le> x mod k" using assms by simp_all
  with False have r: "0 \<le> x mod k + 1" "x mod k + 1 < k" by linarith+
  have e: "x + 1 = k * (x div k) + (x mod k + 1)"
    using mult_div_mod_eq [of k x] by simp
  have d: "(x + 1) div k = x div k"
    using int_div_pos_eq [OF e r] .
  have m: "(x + 1) mod k = x mod k + 1"
    using int_mod_pos_eq [OF e r] .
  have "(x + 1) mod k \<noteq> 0" using m \<open>0 \<le> x mod k\<close> by linarith
  then show ?thesis using d by simp
qed

definition DaysInYear :: "int \<Rightarrow> int" where
  "DaysInYear y = (if y mod 4 \<noteq> 0 then 365 else if y mod 100 \<noteq> 0 then 366
                   else if y mod 400 \<noteq> 0 then 365 else 366)"

definition DayFromYear :: "int \<Rightarrow> int" where
  "DayFromYear y = 365 * (y - 1970) + (y - 1969) div 4 - (y - 1901) div 100 + (y - 1601) div 400"

lemma m4: "((y::int) - 1968) mod 4 = 0 \<longleftrightarrow> y mod 4 = 0" by presburger
lemma m100: "((y::int) - 1900) mod 100 = 0 \<longleftrightarrow> y mod 100 = 0" by presburger
lemma m400: "((y::int) - 1600) mod 400 = 0 \<longleftrightarrow> y mod 400 = 0"
proof -
  have "y - 1600 = y + (- 4) * 400" by simp
  then have "(y - 1600) mod 400 = y mod 400" by (simp only: mod_mult_self1)
  then show ?thesis by simp
qed
lemma m4_100: "(y::int) mod 100 = 0 \<Longrightarrow> y mod 4 = 0" by presburger
lemma m100_400: "(y::int) mod 400 = 0 \<Longrightarrow> y mod 100 = 0"
proof -
  assume "y mod 400 = 0"
  then have "400 dvd y" by (simp add: mod_eq_0_iff_dvd)
  moreover have "(100::int) dvd 400" by simp
  ultimately have "100 dvd y" by (rule dvd_trans [rotated])
  then show ?thesis by (simp add: mod_eq_0_iff_dvd)
qed

lemma DayFromYear_Suc: "DayFromYear (y + 1) = DayFromYear y + DaysInYear y"
proof -
  have a: "(y + 1 - 1969) div 4 = (if y mod 4 = 0 then (y - 1969) div 4 + 1 else (y - 1969) div 4)"
    using div_succ [of 4 "y - 1969"] m4 [of y] by (simp add: algebra_simps)
  have b: "(y + 1 - 1901) div 100 = (if y mod 100 = 0 then (y - 1901) div 100 + 1 else (y - 1901) div 100)"
    using div_succ [of 100 "y - 1901"] m100 [of y] by (simp add: algebra_simps)
  have c: "(y + 1 - 1601) div 400 = (if y mod 400 = 0 then (y - 1601) div 400 + 1 else (y - 1601) div 400)"
    using div_succ [of 400 "y - 1601"] m400 [of y] by (simp add: algebra_simps)
  show ?thesis
    unfolding DayFromYear_def DaysInYear_def a b c
    using m4_100 [of y] m100_400 [of y] by auto
qed

lemma DaysInYear_bounds: "365 \<le> DaysInYear y" "DaysInYear y \<le> 366"
  by (simp_all add: DaysInYear_def)

lemma DayFromYear_1970: "DayFromYear 1970 = 0"
  by (simp add: DayFromYear_def)

lemma DayFromYear_mono_aux: "0 \<le> k \<Longrightarrow> DayFromYear y + 365 * k \<le> DayFromYear (y + k)"
proof (induction k rule: int_ge_induct)
  case base
  then show ?case by simp
next
  case (step i)
  have "DayFromYear (y + i + 1) = DayFromYear (y + i) + DaysInYear (y + i)"
    by (rule DayFromYear_Suc)
  then show ?case using step DaysInYear_bounds(1) [of "y + i"] by (simp add: add.assoc)
qed

lemma DayFromYear_upper_aux: "0 \<le> k \<Longrightarrow> DayFromYear (y + k) \<le> DayFromYear y + 366 * k"
proof (induction k rule: int_ge_induct)
  case base
  then show ?case by simp
next
  case (step i)
  have "DayFromYear (y + i + 1) = DayFromYear (y + i) + DaysInYear (y + i)"
    by (rule DayFromYear_Suc)
  then show ?case using step DaysInYear_bounds(2) [of "y + i"] by (simp add: add.assoc)
qed

lemma DayFromYear_upper: "0 \<le> k \<Longrightarrow> DayFromYear (1970 + k) \<le> 366 * k"
  using DayFromYear_upper_aux [of k 1970] by (simp add: DayFromYear_1970)

lemma DayFromYear_lower: "k \<le> 0 \<Longrightarrow> DayFromYear (1970 + k) \<le> 365 * k"
  using DayFromYear_mono_aux [of "- k" "1970 + k"] by (simp add: DayFromYear_1970)

lemma DayFromYear_strict_mono: "y < z \<Longrightarrow> DayFromYear y < DayFromYear z"
  using DayFromYear_mono_aux [of "z - y" y] by simp


function yearUp :: "int \<Rightarrow> int \<Rightarrow> int" where
  "yearUp d y = (if DayFromYear (y + 1) \<le> d then yearUp d (y + 1) else y)"
  by pat_completeness auto
termination
proof (relation "measure (\<lambda>(d, y). nat (d - DayFromYear y))")
  show "wf (measure (\<lambda>(d, y). nat (d - DayFromYear y)))" by simp
next
  fix d y :: int
  assume "DayFromYear (y + 1) \<le> d"
  moreover have "DayFromYear y < DayFromYear (y + 1)"
    by (rule DayFromYear_strict_mono) simp
  ultimately show "((d, y + 1), (d, y)) \<in> measure (\<lambda>(d, y). nat (d - DayFromYear y))"
    by simp
qed

declare yearUp.simps [simp del]

definition YearFromTime :: "int \<Rightarrow> int" where
  "YearFromTime t =
     (let d = Day t in yearUp d (1970 + (if 0 \<le> d then d div 366 else d div 365)))"

lemma yearUp_spec:
  "DayFromYear y \<le> d \<Longrightarrow>
   DayFromYear (yearUp d y) \<le> d \<and> d < DayFromYear (yearUp d y + 1)"
proof (induction d y rule: yearUp.induct)
  case (1 d y)
  show ?case
  proof (cases "DayFromYear (y + 1) \<le> d")
    case True
    then have "yearUp d y = yearUp d (y + 1)" by (subst yearUp.simps) simp
    with 1 True show ?thesis by simp
  next
    case False
    then have "yearUp d y = y" by (subst yearUp.simps) simp
    with 1 False show ?thesis by simp
  qed
qed

lemma year_start_le: "DayFromYear (1970 + (if 0 \<le> d then d div 366 else d div 365)) \<le> d"
proof (cases "0 \<le> d")
  case True
  then have "0 \<le> d div 366" by simp
  then have "DayFromYear (1970 + d div 366) \<le> 366 * (d div 366)"
    by (rule DayFromYear_upper)
  moreover have "366 * (d div 366) \<le> d"
    using mult_div_mod_eq [of 366 d] pos_mod_sign [of 366 d] by linarith
  ultimately show ?thesis using True by simp
next
  case False
  then have "d div 365 \<le> 0" using div_neg_pos_less0 [of d 365] by simp
  then have "DayFromYear (1970 + d div 365) \<le> 365 * (d div 365)"
    by (rule DayFromYear_lower)
  moreover have "365 * (d div 365) \<le> d"
    using mult_div_mod_eq [of 365 d] pos_mod_sign [of 365 d] by linarith
  ultimately show ?thesis using False by simp
qed

lemma YearFromTime_spec:
  "DayFromYear (YearFromTime t) \<le> Day t \<and> Day t < DayFromYear (YearFromTime t + 1)"
  unfolding YearFromTime_def Let_def by (rule yearUp_spec) (rule year_start_le)

lemma year_unique:
  assumes "DayFromYear y \<le> d" "d < DayFromYear (y + 1)"
    and "DayFromYear z \<le> d" "d < DayFromYear (z + 1)"
  shows "y = z"
proof (rule ccontr)
  assume "y \<noteq> z"
  then consider "y + 1 \<le> z" | "z + 1 \<le> y" by linarith
  then show False
  proof cases
    case 1
    then have "DayFromYear (y + 1) \<le> DayFromYear z"
      using DayFromYear_strict_mono [of "y + 1" z] by (cases "y + 1 = z") auto
    with assms show False by linarith
  next
    case 2
    then have "DayFromYear (z + 1) \<le> DayFromYear y"
      using DayFromYear_strict_mono [of "z + 1" y] by (cases "z + 1 = y") auto
    with assms show False by linarith
  qed
qed

lemma YearFromTime_eqI:
  "DayFromYear y \<le> Day t \<Longrightarrow> Day t < DayFromYear (y + 1) \<Longrightarrow> YearFromTime t = y"
  using YearFromTime_spec [of t] year_unique by blast


definition InLeapYear :: "int \<Rightarrow> int" where
  "InLeapYear t = (if DaysInYear (YearFromTime t) = 366 then 1 else 0)"

definition DayWithinYear :: "int \<Rightarrow> int" where
  "DayWithinYear t = Day t - DayFromYear (YearFromTime t)"

definition MonthFromTime :: "int \<Rightarrow> int" where
  "MonthFromTime t =
     (let d = DayWithinYear t; l = InLeapYear t in
      if d < 31 then 0
      else if d < 59 + l then 1
      else if d < 90 + l then 2
      else if d < 120 + l then 3
      else if d < 151 + l then 4
      else if d < 181 + l then 5
      else if d < 212 + l then 6
      else if d < 243 + l then 7
      else if d < 273 + l then 8
      else if d < 304 + l then 9
      else if d < 334 + l then 10
      else 11)"

definition DateFromTime :: "int \<Rightarrow> int" where
  "DateFromTime t =
     (let d = DayWithinYear t; l = InLeapYear t; m = MonthFromTime t in
      if m = 0 then d + 1
      else if m = 1 then d - 30
      else if m = 2 then d - 58 - l
      else if m = 3 then d - 89 - l
      else if m = 4 then d - 119 - l
      else if m = 5 then d - 150 - l
      else if m = 6 then d - 180 - l
      else if m = 7 then d - 211 - l
      else if m = 8 then d - 242 - l
      else if m = 9 then d - 272 - l
      else if m = 10 then d - 303 - l
      else d - 333 - l)"

definition WeekDay :: "int \<Rightarrow> int" where
  "WeekDay t = (Day t + 4) mod 7"

definition HourFromTime :: "int \<Rightarrow> int" where
  "HourFromTime t = (t div msPerHour) mod 24"

text \<open>Days of the year before month \<open>m\<close> (0 to 11), \<open>l\<close> being 1 in a leap year.\<close>

definition monthStart :: "int \<Rightarrow> int \<Rightarrow> int" where
  "monthStart l m =
     (if m = 0 then 0 else if m = 1 then 31 else if m = 2 then 59 + l
      else if m = 3 then 90 + l else if m = 4 then 120 + l else if m = 5 then 151 + l
      else if m = 6 then 181 + l else if m = 7 then 212 + l else if m = 8 then 243 + l
      else if m = 9 then 273 + l else if m = 10 then 304 + l else 334 + l)"

definition MakeDay :: "int \<Rightarrow> int \<Rightarrow> int \<Rightarrow> int" where
  "MakeDay year month dt =
     (let ym = year + month div 12; mn = month mod 12;
          l = (if DaysInYear ym = 366 then 1 else 0)
      in DayFromYear ym + monthStart l mn + dt - 1)"

definition MakeDate :: "int \<Rightarrow> int \<Rightarrow> int" where
  "MakeDate day time = day * msPerDay + time"

definition monthLength :: "int \<Rightarrow> int \<Rightarrow> int" where
  "monthLength y m =
     (if m = 1 then (if DaysInYear y = 366 then 29 else 28)
      else if m = 3 \<or> m = 5 \<or> m = 8 \<or> m = 10 then 30 else 31)"

lemma Day_MakeDate: "0 \<le> tw \<Longrightarrow> tw < msPerDay \<Longrightarrow> Day (MakeDate d tw) = d"
  unfolding Day_def MakeDate_def
  by (simp add: msPerDay_def div_pos_pos_trivial)

lemma Day_TimeWithinDay: "MakeDate (Day t) (TimeWithinDay t) = t"
  by (simp add: MakeDate_def Day_def TimeWithinDay_def)

lemma TimeWithinDay_bounds: "0 \<le> TimeWithinDay t" "TimeWithinDay t < msPerDay"
  by (simp_all add: TimeWithinDay_def msPerDay_def)

lemma month_cases:
  fixes m :: int
  assumes "0 \<le> m" "m < 12"
  obtains "m = 0" | "m = 1" | "m = 2" | "m = 3" | "m = 4" | "m = 5"
    | "m = 6" | "m = 7" | "m = 8" | "m = 9" | "m = 10" | "m = 11"
proof -
  have "m = 0 \<or> m = 1 \<or> m = 2 \<or> m = 3 \<or> m = 4 \<or> m = 5
      \<or> m = 6 \<or> m = 7 \<or> m = 8 \<or> m = 9 \<or> m = 10 \<or> m = 11"
    using assms by presburger
  then show thesis using that by blast
qed

text \<open>A day given by its year and its position in the year.\<close>

lemma in_year:
  assumes "Day t = DayFromYear y + w" "0 \<le> w" "w < DaysInYear y"
  shows "YearFromTime t = y" "DayWithinYear t = w"
    "InLeapYear t = (if DaysInYear y = 366 then 1 else 0)"
proof -
  show y: "YearFromTime t = y"
    using assms DayFromYear_Suc [of y] by (intro YearFromTime_eqI) simp_all
  show "DayWithinYear t = w" using assms y by (simp add: DayWithinYear_def)
  show "InLeapYear t = (if DaysInYear y = 366 then 1 else 0)"
    using y by (simp add: InLeapYear_def)
qed

definition leapDays :: "int \<Rightarrow> int" where
  "leapDays y = (if DaysInYear y = 366 then 1 else 0)"

lemma leapDays_bounds: "0 \<le> leapDays y" "leapDays y \<le> 1" "DaysInYear y = 365 + leapDays y"
  using DaysInYear_bounds [of y] by (auto simp: leapDays_def DaysInYear_def)

definition monthLen :: "int \<Rightarrow> int \<Rightarrow> int" where
  "monthLen l m = monthStart l (m + 1) - monthStart l m + (if m = 11 then 31 else 0)"

lemma monthLength_monthLen:
  "0 \<le> m \<Longrightarrow> m < 12 \<Longrightarrow> monthLength y m = monthLen (leapDays y) m"
  by (erule (1) month_cases) (simp_all add: monthLength_def monthLen_def monthStart_def leapDays_def)

lemma MonthFromTime_table:
  assumes "DayWithinYear t = monthStart l m + k" "InLeapYear t = l" "0 \<le> l" "l \<le> 1"
    and "0 \<le> m" "m < 12" "0 \<le> k" "k < monthLen l m"
  shows "MonthFromTime t = m"
  using assms(5,6)
proof (cases m rule: month_cases)
qed (insert assms(1-4,7,8), simp_all add: MonthFromTime_def monthStart_def monthLen_def)

lemma DateFromTime_table:
  assumes "DayWithinYear t = monthStart l m + k" "InLeapYear t = l" "MonthFromTime t = m"
    and "0 \<le> m" "m < 12"
  shows "DateFromTime t = k + 1"
  using assms(4,5)
proof (cases m rule: month_cases)
qed (insert assms(1-3), simp_all add: DateFromTime_def monthStart_def)

lemma in_month:
  assumes d: "Day t = DayFromYear y + monthStart (leapDays y) m + k"
    and m: "0 \<le> m" "m < 12" and k: "0 \<le> k" "k < monthLength y m"
  shows "YearFromTime t = y \<and> MonthFromTime t = m \<and> DateFromTime t = k + 1"
proof -
  define l where "l = leapDays y"
  note lb = leapDays_bounds [of y, folded l_def]
  have k': "k < monthLen l m" using k m by (simp add: monthLength_monthLen l_def)
  have w: "0 \<le> monthStart l m + k \<and> monthStart l m + k < DaysInYear y"
    using m
  proof (cases m rule: month_cases)
  qed (insert k' k(1) lb, simp_all add: monthStart_def monthLen_def)
  have dd: "Day t = DayFromYear y + (monthStart l m + k)" using d by (simp add: l_def)
  have iy: "YearFromTime t = y" "DayWithinYear t = monthStart l m + k" "InLeapYear t = l"
    using in_year [OF dd] w by (simp_all add: l_def leapDays_def)
  have mf: "MonthFromTime t = m"
    using iy(2,3) lb(1,2) m k(1) k' by (rule MonthFromTime_table)
  have "DateFromTime t = k + 1"
    using iy(2,3) mf m by (rule DateFromTime_table)
  with mf iy show ?thesis by simp
qed

lemma month_range: "0 \<le> MonthFromTime t \<and> MonthFromTime t < 12"
  by (simp add: MonthFromTime_def Let_def)

lemma DayWithinYear_bounds: "0 \<le> DayWithinYear t" "DayWithinYear t < DaysInYear (YearFromTime t)"
  using YearFromTime_spec [of t] DayFromYear_Suc [of "YearFromTime t"]
  by (simp_all add: DayWithinYear_def)

lemma InLeapYear_leapDays: "InLeapYear t = leapDays (YearFromTime t)"
  by (simp add: InLeapYear_def leapDays_def)

text \<open>A day is the day that \<open>MakeDay\<close> makes of its year, month and date.\<close>

lemma MakeDay_decompose: "MakeDay (YearFromTime t) (MonthFromTime t) (DateFromTime t) = Day t"
proof -
  define l where "l = InLeapYear t"
  define w where "w = DayWithinYear t"
  have l: "leapDays (YearFromTime t) = l" by (simp add: l_def InLeapYear_leapDays)
  have mr: "MonthFromTime t div 12 = 0" "MonthFromTime t mod 12 = MonthFromTime t"
    using month_range [of t] by simp_all
  have "monthStart l (MonthFromTime t) + DateFromTime t - 1 = w"
    by (simp add: MonthFromTime_def DateFromTime_def monthStart_def Let_def
        l_def [symmetric] w_def [symmetric])
  then have "MakeDay (YearFromTime t) (MonthFromTime t) (DateFromTime t)
      = DayFromYear (YearFromTime t) + w"
    by (simp add: MakeDay_def Let_def mr l [unfolded leapDays_def])
  then show ?thesis by (simp add: w_def DayWithinYear_def)
qed

lemma MakeDay_shift: "MakeDay y m (d + k) = MakeDay y m d + k"
  by (simp add: MakeDay_def Let_def)

subsection \<open>Local time and the methods of \<open>Date\<close>\<close>

text \<open>
  The local time zone is the environment of the program. It is the function
  \<open>LocalTZA(t, isUTC)\<close> of ECMAScript: the offset of local time from UTC in
  milliseconds, in force at the UTC instant \<open>t\<close> when \<open>isUTC\<close> is true and at
  the local time \<open>t\<close> when it is false. In a zone with daylight saving the
  offset differs from instant to instant.
\<close>

type_synonym zone = "int \<Rightarrow> bool \<Rightarrow> int"

definition LocalTime :: "zone \<Rightarrow> int \<Rightarrow> int" where
  "LocalTime z t = t + z t True"

definition UTC :: "zone \<Rightarrow> int \<Rightarrow> int" where
  "UTC z t = t - z t False"

text \<open>A zone whose offset never changes.\<close>

definition fixed_zone :: "int \<Rightarrow> zone" where
  "fixed_zone offset = (\<lambda>t isUTC. offset)"

text \<open>
  The offsets of America/New_York in 2024: five hours behind UTC, and four
  hours behind from 2024-03-10T07:00:00Z (02:00 local, which becomes 03:00) to
  2024-11-03T06:00:00Z (02:00 local, which becomes 01:00). A local time that the
  spring change skips or the autumn change repeats is read with the offset in
  force before the change.
\<close>

definition new_york_2024 :: zone where
  "new_york_2024 t isUTC =
     (if isUTC
      then (if 1710054000000 \<le> t \<and> t < 1730613600000 then - 14400000 else - 18000000)
      else (if 1710039600000 \<le> t \<and> t < 1730599200000 then - 14400000 else - 18000000))"

text \<open>
  A \<open>Date\<close> holds a time value of at most \<open>8.64e15\<close> ms in absolute value, or
  is an Invalid Date, whose time value is \<open>NaN\<close>: \<open>None\<close>. \<open>TimeClip\<close> makes
  the one or the other of a computed time. The methods below are those of a
  valid \<open>Date\<close>.
\<close>

definition TimeClip :: "int \<Rightarrow> int option" where
  "TimeClip t = (if \<bar>t\<bar> \<le> 8640000000000000 then Some t else None)"

definition getFullYear :: "zone \<Rightarrow> int \<Rightarrow> int" where
  "getFullYear z t = YearFromTime (LocalTime z t)"

definition getMonth :: "zone \<Rightarrow> int \<Rightarrow> int" where
  "getMonth z t = MonthFromTime (LocalTime z t)"

definition getDate :: "zone \<Rightarrow> int \<Rightarrow> int" where
  "getDate z t = DateFromTime (LocalTime z t)"

definition getDay :: "zone \<Rightarrow> int \<Rightarrow> int" where
  "getDay z t = WeekDay (LocalTime z t)"

definition getHours :: "zone \<Rightarrow> int \<Rightarrow> int" where
  "getHours z t = HourFromTime (LocalTime z t)"

text \<open>
  \<open>date.setDate(dt)\<close>: the same local year, month and time of day, day \<open>dt\<close>,
  taken back to UTC with the offset in force at that local time.
\<close>

definition setDate :: "zone \<Rightarrow> int \<Rightarrow> int \<Rightarrow> int option" where
  "setDate z t dt =
     (let lt = LocalTime z t;
          newDate = MakeDate (MakeDay (YearFromTime lt) (MonthFromTime lt) dt) (TimeWithinDay lt)
      in TimeClip (UTC z newDate))"

text \<open>
  \<open>new Date(year, month, date)\<close>: local midnight of the given day. The constructor
  reads a year from 0 to 99 as 1900 plus that year.
\<close>

definition MakeFullYear :: "int \<Rightarrow> int" where
  "MakeFullYear year = (if 0 \<le> year \<and> year \<le> 99 then 1900 + year else year)"

definition newDate :: "zone \<Rightarrow> int \<Rightarrow> int \<Rightarrow> int \<Rightarrow> int option" where
  "newDate z year month dt =
     TimeClip (UTC z (MakeDate (MakeDay (MakeFullYear year) month dt) 0))"

text \<open>
  \<open>toISOString().split('T')[0]\<close> of a valid \<open>Date\<close>: the UTC calendar date as
  \<open>YYYY-MM-DD\<close>; a year outside 0 to 9999 is written with a sign and six digits.
  (On an Invalid Date \<open>toISOString\<close> throws a \<open>RangeError\<close>, which is a branch of
  its callers.)
\<close>

primrec pad :: "nat \<Rightarrow> nat \<Rightarrow> string" where
  "pad 0 n = []"
| "pad (Suc k) n = pad k (n div 10) @ [''0123456789'' ! (n mod 10)]"

lemma pad_numeral:
  "pad (numeral k) n = pad (pred_numeral k) (n div 10) @ [''0123456789'' ! (n mod 10)]"
proof -
  have "numeral k = Suc (pred_numeral k)" by (rule numeral_eq_Suc)
  then have "pad (numeral k) n = pad (Suc (pred_numeral k)) n" by (simp only:)
  then show ?thesis by simp
qed

definition yearString :: "int \<Rightarrow> string" where
  "yearString y =
     (if 0 \<le> y \<and> y \<le> 9999 then pad 4 (nat y)
      else (if y < 0 then ''-'' else ''+'') @ pad 6 (nat \<bar>y\<bar>))"

definition toISODate :: "int \<Rightarrow> string" where
  "toISODate t =
     yearString (YearFromTime t) @ ''-'' @ pad 2 (nat (MonthFromTime t + 1))
       @ ''-'' @ pad 2 (nat (DateFromTime t))"

text \<open>\<open>toLocaleDateString('en-US', { weekday: 'short' })\<close>\<close>

definition weekdayShort :: "zone \<Rightarrow> int \<Rightarrow> string" where
  "weekdayShort z t =
     [''Sun'', ''Mon'', ''Tue'', ''Wed'', ''Thu'', ''Fri'', ''Sat''] ! nat (getDay z t)"

lemma toISODate_Day: "Day s = Day t \<Longrightarrow> toISODate s = toISODate t"
  by (simp add: toISODate_def YearFromTime_def MonthFromTime_def DateFromTime_def
      DayWithinYear_def InLeapYear_def)

lemma Day_shift: "Day (t - k * msPerDay) = Day t - k"
proof -
  have "t - k * msPerDay = t + (- k) * msPerDay" by simp
  then have "(t - k * msPerDay) div msPerDay = t div msPerDay + (- k)"
    by (simp only: div_mult_self1 [of msPerDay t "- k"] msPerDay_def; simp)
  then show ?thesis by (simp add: Day_def)
qed

text \<open>
  \<open>date.setDate(date.getDate() - k)\<close> goes back \<open>k\<close> days of local time, and
  back to UTC with the offset of the zone there.
\<close>

lemma setDate_getDate:
  "setDate z t (getDate z t - k) = TimeClip (UTC z (LocalTime z t - k * msPerDay))"
proof -
  define lt where "lt = LocalTime z t"
  have "MakeDay (YearFromTime lt) (MonthFromTime lt) (DateFromTime lt + (- k)) = Day lt - k"
    by (simp only: MakeDay_shift MakeDay_decompose; simp)
  then have "MakeDay (YearFromTime lt) (MonthFromTime lt) (DateFromTime lt - k) = Day lt - k"
    by simp
  then have "setDate z t (getDate z t - k)
      = TimeClip (UTC z (MakeDate (Day lt - k) (TimeWithinDay lt)))"
    by (simp add: setDate_def getDate_def Let_def lt_def [symmetric])
  also have "MakeDate (Day lt - k) (TimeWithinDay lt) = MakeDate (Day lt) (TimeWithinDay lt) - k * msPerDay"
    by (simp add: MakeDate_def algebra_simps)
  also have "MakeDate (Day lt) (TimeWithinDay lt) = lt" by (rule Day_TimeWithinDay)
  finally show ?thesis by (simp add: lt_def)
qed

lemma fixed_zone_LocalTime: "LocalTime (fixed_zone offset) t = t + offset"
  by (simp add: LocalTime_def fixed_zone_def)

lemma fixed_zone_UTC: "UTC (fixed_zone offset) t = t - offset"
  by (simp add: UTC_def fixed_zone_def)

section \<open>Data model (lib/supabase.ts and the schema migration)\<close>

text \<open>
  The two row types. Text columns are strings. A timestamp column holds an
  ECMAScript time value, of which the ISO string the application writes is a
  one-to-one rendering; \<open>None\<close> is SQL \<open>NULL\<close>. The \<open>date\<close> column is the
  \<open>YYYY-MM-DD\<close> string the application writes and compares. The \<open>id\<close> and
  \<open>created_at\<close> columns are renamed per table (\<open>id\<close> is the identity function
  of HOL).
\<close>

datatype role = employee | manager

datatype status = present | absent | late | half_day

record Profile =
  profile_id :: string
  name :: string
  email :: string
  role :: role
  employee_id :: string
  department :: string
  profile_created_at :: int

record AttendanceRecord =
  record_id :: string
  user_id :: string
  date :: string
  check_in_time :: "int option"
  check_out_time :: "int option"
  status :: status
  total_hours :: "jsnum option"
  created_at :: int

section \<open>The record store\<close>

text \<open>
  The \<open>attendance\<close> table is the sequence of its rows. An insert fills the
  columns the application leaves out with the defaults of the schema
  (\<open>gen_random_uuid()\<close> and \<open>now()\<close>, given by the environment as \<open>dflt\<close>;
  \<open>total_hours\<close> 0; \<open>check_out_time\<close> \<open>NULL\<close>) and is refused when the
  constraint \<open>UNIQUE(user_id, date)\<close> would fail. Row level security and
  network failures are not modelled.
\<close>

datatype store_error = unique_violation | numeric_field_overflow

definition insert_attendance ::
  "AttendanceRecord list \<Rightarrow> string \<times> int \<Rightarrow> string \<Rightarrow> string \<Rightarrow> int \<Rightarrow> status
     \<Rightarrow> store_error + AttendanceRecord list" where
  "insert_attendance store dflt uid today checkInTime st =
     (if \<exists>r \<in> set store. user_id r = uid \<and> date r = today then Inl unique_violation
      else Inr (store @ [\<lparr>record_id = fst dflt, user_id = uid, date = today,
                           check_in_time = Some checkInTime, check_out_time = None,
                           status = st, total_hours = Some (Fin 0),
                           created_at = snd dflt\<rparr>]))"

text \<open>
  The column \<open>total_hours numeric(4,2)\<close> holds four decimal digits, two of them
  after the point. A number the client sends is rounded to two decimals, halves
  away from zero, and refused with \<open>numeric field overflow\<close> when the rounded
  value is 100 or more in absolute value; \<open>hundredths\<close> is the rounded value
  times 100. The client reads the column back as the double nearest to the value
  held. \<open>JSON.stringify\<close> writes \<open>NaN\<close> and the infinities as \<open>null\<close>, which
  the column holds as \<open>NULL\<close>. (The decimal the client writes for a double is
  taken at the value of the double; for the doubles nearest to a number of
  hundredths, which are the ones \<open>handleCheckOut\<close> sends, it is that number of
  hundredths.)
\<close>

definition round_half_away :: "rat \<Rightarrow> int" where
  "round_half_away x = (if 0 \<le> x then \<lfloor>x + 1 / 2\<rfloor> else - \<lfloor>- x + 1 / 2\<rfloor>)"

definition numeric_4_2 :: "jsnum \<Rightarrow> store_error + jsnum option" where
  "numeric_4_2 v =
     (case v of
        Fin x \<Rightarrow>
          (let hundredths = round_half_away (x * 100)
           in if 10000 \<le> \<bar>hundredths\<bar> then Inl numeric_field_overflow
              else Inr (Some (Fin (fl (of_int hundredths / 100)))))
      | _ \<Rightarrow> Inr None)"

text \<open>
  An update sets the two columns of the rows with the given id, or is refused,
  leaving the table as it is.
\<close>

definition update_attendance ::
  "AttendanceRecord list \<Rightarrow> string \<Rightarrow> int \<Rightarrow> jsnum
     \<Rightarrow> store_error + AttendanceRecord list" where
  "update_attendance store rid checkOutTime hours =
     (case numeric_4_2 hours of
        Inl e \<Rightarrow> Inl e
      | Inr held \<Rightarrow>
          Inr (map (\<lambda>r. if record_id r = rid
                        then r\<lparr>check_out_time := Some checkOutTime, total_hours := held\<rparr>
                        else r) store))"

section \<open>Employee dashboard (pages/EmployeeDashboard.tsx)\<close>

subsection \<open>handleCheckIn\<close>

text \<open>
  \<open>hour = now.getHours(); status = hour >= 9 ? 'late' : 'present'\<close>
\<close>

definition checkInStatus :: "zone \<Rightarrow> int \<Rightarrow> status" where
  "checkInStatus z now = (let hour = getHours z now in if 9 \<le> hour then late else present)"

text \<open>
  \<open>user\<close> is the id of the signed-in user, \<open>None\<close> when there is none. The result
  is the error the handler logs, if any, and the table afterwards.
\<close>

definition handleCheckIn ::
  "zone \<Rightarrow> string \<times> int \<Rightarrow> string option \<Rightarrow> int \<Rightarrow> AttendanceRecord list
     \<Rightarrow> store_error option \<times> AttendanceRecord list" where
  "handleCheckIn z dflt user now store =
     (case user of
        None \<Rightarrow> (None, store)
      | Some uid \<Rightarrow>
          (let today = toISODate now;
               checkInTime = now;
               st = checkInStatus z now
           in case insert_attendance store dflt uid today checkInTime st of
                Inl e \<Rightarrow> (Some e, store)
              | Inr store' \<Rightarrow> (None, store')))"

subsection \<open>handleCheckOut\<close>

text \<open>
  \<open>hours = (checkOut.getTime() - checkIn.getTime()) / (1000 * 60 * 60)\<close> and
  \<open>total_hours: Math.round(hours * 100) / 100\<close>. \<open>new Date(null)\<close> is the epoch,
  which is what a record without check-in time gives. The result is the error
  of the update, which the handler throws, catches and logs, if any, and the
  table afterwards.
\<close>

definition checkOutHours :: "int \<Rightarrow> int \<Rightarrow> jsnum" where
  "checkOutHours checkInTime checkOutTime =
     (let hours = num_div (num_sub (num_of_int checkOutTime) (num_of_int checkInTime))
                    (Fin (1000 * 60 * 60))
      in num_div (Math_round (num_mul hours (Fin 100))) (Fin 100))"

definition handleCheckOut ::
  "string option \<Rightarrow> AttendanceRecord option \<Rightarrow> int \<Rightarrow> AttendanceRecord list
     \<Rightarrow> store_error option \<times> AttendanceRecord list" where
  "handleCheckOut user todayAttendance now store =
     (case (user, todayAttendance) of
        (Some uid, Some ta) \<Rightarrow>
          (let checkOutTime = now;
               checkInTime = (case check_in_time ta of None \<Rightarrow> 0 | Some t \<Rightarrow> t)
           in case update_attendance store (record_id ta) checkOutTime
                     (checkOutHours checkInTime checkOutTime) of
                Inl e \<Rightarrow> (Some e, store)
              | Inr store' \<Rightarrow> (None, store'))
      | _ \<Rightarrow> (None, store))"

subsection \<open>loadDashboardData: the monthly statistics\<close>

text \<open>\<open>r.total_hours || 0\<close>: 0 for \<open>null\<close>, \<open>NaN\<close> and 0, the value otherwise.\<close>

definition or_zero :: "jsnum option \<Rightarrow> jsnum" where
  "or_zero v = (case v of None \<Rightarrow> Fin 0 | Some NaN \<Rightarrow> Fin 0 | Some x \<Rightarrow> x)"

record MonthlyStats =
  stats_present :: int
  stats_absent :: int
  stats_late :: int
  stats_totalHours :: jsnum

definition monthlyStats :: "AttendanceRecord list \<Rightarrow> MonthlyStats" where
  "monthlyStats monthData =
     \<lparr>stats_present = int (length (filter (\<lambda>r. status r = present) monthData)),
      stats_absent = int (length (filter (\<lambda>r. status r = absent) monthData)),
      stats_late = int (length (filter (\<lambda>r. status r = late) monthData)),
      stats_totalHours = foldl (\<lambda>sum r. num_add sum (or_zero (total_hours r))) (Fin 0) monthData\<rparr>"

section \<open>Manager dashboard (pages/ManagerDashboard.tsx)\<close>

subsection \<open>Weekly trend\<close>

text \<open>
  \<open>totalEmployees = profiles?.filter(p => p.role === 'employee').length || 0\<close>;
  \<open>profiles\<close> is \<open>None\<close> when the query gave \<open>null\<close>.
\<close>

definition totalEmployeesOf :: "Profile list option \<Rightarrow> int" where
  "totalEmployeesOf profiles =
     (case profiles of None \<Rightarrow> 0
      | Some ps \<Rightarrow> int (length (filter (\<lambda>p. role p = employee) ps)))"

text \<open>
  The loop \<open>for (let i = 6; i >= 0; i--)\<close>; \<open>trendBucket\<close> is the object one
  turn pushes. Every turn reads the clock (\<open>new Date()\<close>): \<open>clock i\<close> is the
  instant that turn \<open>i\<close> reads. \<open>toISOString\<close> throws a \<open>RangeError\<close> on an
  Invalid Date, which ends the loop; \<open>loadDashboardStats\<close> catches and logs it.
  \<open>weeklyData\<close> is \<open>None\<close> when the query gave \<open>null\<close>.
\<close>

datatype js_error = RangeError

record TrendBucket =
  trend_day :: string
  trend_present :: int
  trend_absent :: int

definition trendBucket ::
  "zone \<Rightarrow> int \<Rightarrow> AttendanceRecord list option \<Rightarrow> int \<Rightarrow> int
     \<Rightarrow> js_error + TrendBucket" where
  "trendBucket z now weeklyData totalEmployees i =
     (case setDate z now (getDate z now - i) of
        None \<Rightarrow> Inl RangeError
      | Some d \<Rightarrow>
          (let dateStr = toISODate d;
               dayData = (case weeklyData of None \<Rightarrow> []
                          | Some ws \<Rightarrow> filter (\<lambda>a. date a = dateStr) ws)
           in Inr \<lparr>trend_day = weekdayShort z d,
                   trend_present = int (length (filter
                      (\<lambda>a. status a = present \<or> status a = late) dayData)),
                   trend_absent = totalEmployees - int (length dayData)\<rparr>))"

function trendLoop ::
  "zone \<Rightarrow> (int \<Rightarrow> int) \<Rightarrow> AttendanceRecord list option \<Rightarrow> int \<Rightarrow> int \<Rightarrow> TrendBucket list
     \<Rightarrow> js_error + TrendBucket list" where
  "trendLoop z clock weeklyData totalEmployees i weeklyTrend =
     (if 0 \<le> i then
        (case trendBucket z (clock i) weeklyData totalEmployees i of
           Inl e \<Rightarrow> Inl e
         | Inr bucket \<Rightarrow>
             trendLoop z clock weeklyData totalEmployees (i - 1) (weeklyTrend @ [bucket]))
      else Inr weeklyTrend)"
  by pat_completeness auto
termination
  by (relation "measure (\<lambda>(z, clock, weeklyData, totalEmployees, i, weeklyTrend). nat (i + 1))")
    auto

declare trendLoop.simps [simp del]

definition weeklyTrend ::
  "zone \<Rightarrow> (int \<Rightarrow> int) \<Rightarrow> AttendanceRecord list option \<Rightarrow> int
     \<Rightarrow> js_error + TrendBucket list" where
  "weeklyTrend z clock weeklyData totalEmployees =
     trendLoop z clock weeklyData totalEmployees 6 []"

text \<open>
  The widths of the two bars of a day of the trend, as the page computes them for
  every bucket: \<open>(day.present / stats.totalEmployees) * 100\<close> and
  \<open>(day.absent / stats.totalEmployees) * 100\<close>.
\<close>

definition trendBarWidths :: "int \<Rightarrow> TrendBucket list \<Rightarrow> (jsnum \<times> jsnum) list" where
  "trendBarWidths totalEmployees trend =
     map (\<lambda>day.
            (num_mul (num_div (num_of_int (trend_present day)) (num_of_int totalEmployees))
               (Fin 100),
             num_mul (num_div (num_of_int (trend_absent day)) (num_of_int totalEmployees))
               (Fin 100)))
       trend"

subsection \<open>Percentages\<close>

text \<open>
  \<open>stats.totalEmployees > 0 ? Math.round((stats.todayPresent / stats.totalEmployees) * 100) : 0\<close>
  and, for a department, \<open>Math.round((dept.present / dept.total) * 100)\<close>.
\<close>

definition todayPercentage :: "int \<Rightarrow> int \<Rightarrow> jsnum" where
  "todayPercentage totalEmployees todayPresent =
     (if 0 < totalEmployees
      then Math_round (num_mul (num_div (num_of_int todayPresent) (num_of_int totalEmployees)) (Fin 100))
      else Fin 0)"

definition deptPercentage :: "int \<Rightarrow> int \<Rightarrow> jsnum" where
  "deptPercentage deptPresent deptTotal =
     Math_round (num_mul (num_div (num_of_int deptPresent) (num_of_int deptTotal)) (Fin 100))"


subsection \<open>Department rollup\<close>

text \<open>
  \<open>deptMap\<close> is a JavaScript \<open>Map\<close>, which keeps its keys in insertion order:
  an association list without repeated keys. \<open>Map.set\<close> replaces the value of a
  key the map has and appends a new key at the end. The counters are JavaScript
  numbers holding small integers, modelled by \<open>int\<close>. \<open>profiles\<close> is the list
  the query gave (the empty list when it gave \<open>null\<close>), \<open>presentUserIds\<close> the
  set of the user ids of the day's attendance rows.
\<close>

record DeptCount =
  present_count :: int
  total_count :: int

type_synonym DeptMap = "(string \<times> DeptCount) list"

fun map_has :: "DeptMap \<Rightarrow> string \<Rightarrow> bool" where
  "map_has [] k = False"
| "map_has ((k', v) # m) k = (if k' = k then True else map_has m k)"

fun map_get :: "DeptMap \<Rightarrow> string \<Rightarrow> DeptCount option" where
  "map_get [] k = None"
| "map_get ((k', v) # m) k = (if k' = k then Some v else map_get m k)"

fun map_set :: "DeptMap \<Rightarrow> string \<Rightarrow> DeptCount \<Rightarrow> DeptMap" where
  "map_set [] k v = [(k, v)]"
| "map_set ((k', v') # m) k v = (if k' = k then (k, v) # m else (k', v') # map_set m k v)"

text \<open>
  One turn of the \<open>forEach\<close> callback. \<open>p.department || 'Unassigned'\<close> takes the
  sentinel exactly when the department is the empty string. \<open>deptMap.get(dept)!\<close>
  cannot miss, the key having just been set; the model leaves the map as it is
  in that unreachable branch. The object returned by \<open>get\<close> is the one the map
  holds, so incrementing its fields updates the map's entry.
\<close>

definition deptStep :: "string set \<Rightarrow> DeptMap \<Rightarrow> Profile \<Rightarrow> DeptMap" where
  "deptStep presentUserIds deptMap p =
     (let dept = (if department p = [] then ''Unassigned'' else department p);
          m1 = (if \<not> map_has deptMap dept
                then map_set deptMap dept \<lparr>present_count = 0, total_count = 0\<rparr>
                else deptMap)
      in case map_get m1 dept of
           None \<Rightarrow> m1
         | Some stats \<Rightarrow>
             (let s1 = stats\<lparr>total_count := total_count stats + 1\<rparr>;
                  s2 = (if profile_id p \<in> presentUserIds
                        then s1\<lparr>present_count := present_count s1 + 1\<rparr> else s1)
              in map_set m1 dept s2))"

record DeptStat =
  dept_name :: string
  dept_present :: int
  dept_total :: int

definition departmentStats :: "Profile list \<Rightarrow> string set \<Rightarrow> DeptStat list" where
  "departmentStats profiles presentUserIds =
     map (\<lambda>(d, stats). \<lparr>dept_name = d, dept_present = present_count stats,
                          dept_total = total_count stats\<rparr>)
       (foldl (deptStep presentUserIds) [] (filter (\<lambda>p. role p = employee) profiles))"

section \<open>Calendar grid (EmployeeHistory.tsx and TeamCalendar.tsx, getDaysInMonth)\<close>

text \<open>
  The two pages hold the same function. \<open>currentMonth\<close> is the \<open>Date\<close> of the
  component state, a valid one. \<open>null\<close> is \<open>None\<close>. The two \<open>for\<close> loops push
  onto \<open>days\<close>. The bound of a loop is what \<open>getDay\<close> or \<open>getDate\<close> gives,
  which is \<open>NaN\<close> (\<open>None\<close>) on an Invalid Date; a comparison with \<open>NaN\<close> is
  false.
\<close>

definition js_less :: "int \<Rightarrow> int option \<Rightarrow> bool" where
  "js_less i n = (case n of None \<Rightarrow> False | Some k \<Rightarrow> i < k)"

definition js_less_eq :: "int \<Rightarrow> int option \<Rightarrow> bool" where
  "js_less_eq i n = (case n of None \<Rightarrow> False | Some k \<Rightarrow> i \<le> k)"

function pushNulls :: "int \<Rightarrow> int option \<Rightarrow> int option list \<Rightarrow> int option list" where
  "pushNulls i startingDayOfWeek days =
     (if js_less i startingDayOfWeek then pushNulls (i + 1) startingDayOfWeek (days @ [None])
      else days)"
  by pat_completeness auto
termination
  by (relation "measure (\<lambda>(i, n, days). case n of None \<Rightarrow> 0 | Some k \<Rightarrow> nat (k - i))")
    (auto simp: js_less_def split: option.splits)

function pushDays :: "int \<Rightarrow> int option \<Rightarrow> int option list \<Rightarrow> int option list" where
  "pushDays i daysInMonth days =
     (if js_less_eq i daysInMonth then pushDays (i + 1) daysInMonth (days @ [Some i])
      else days)"
  by pat_completeness auto
termination
  by (relation "measure (\<lambda>(i, n, days). case n of None \<Rightarrow> 0 | Some k \<Rightarrow> nat (k + 1 - i))")
    (auto simp: js_less_eq_def split: option.splits)

declare pushNulls.simps [simp del] pushDays.simps [simp del]

definition getDaysInMonth :: "zone \<Rightarrow> int \<Rightarrow> int option list" where
  "getDaysInMonth z currentMonth =
     (let year = getFullYear z currentMonth;
          month = getMonth z currentMonth;
          firstDay = newDate z year month 1;
          lastDay = newDate z year (month + 1) 0;
          daysInMonth = map_option (getDate z) lastDay;
          startingDayOfWeek = map_option (getDay z) firstDay;
          days = pushNulls 0 startingDayOfWeek []
      in pushDays 1 daysInMonth days)"

section \<open>CSV export (Reports.tsx, exportToCSV)\<close>

text \<open>
  A row of the report is an attendance record joined with its profile. The two
  conversions of the platform, \<open>Date.prototype.toLocaleString\<close> and the
  conversion of a number to a string, are parameters.
\<close>

definition headers :: "string list" where
  "headers = [''Employee Name'', ''Employee ID'', ''Department'', ''Date'',
              ''Check In Time'', ''Check Out Time'', ''Total Hours'', ''Status'']"

definition statusString :: "status \<Rightarrow> string" where
  "statusString s = (case s of present \<Rightarrow> ''present'' | absent \<Rightarrow> ''absent''
                     | late \<Rightarrow> ''late'' | half_day \<Rightarrow> ''half-day'')"

definition csvCells ::
  "(int \<Rightarrow> string) \<Rightarrow> (jsnum \<Rightarrow> string) \<Rightarrow> AttendanceRecord \<times> Profile \<Rightarrow> string list" where
  "csvCells toLocaleString numToString rp =
     (let record = fst rp; profiles = snd rp in
      [name profiles, employee_id profiles, department profiles, date record,
       (case check_in_time record of Some t \<Rightarrow> toLocaleString t | None \<Rightarrow> ''-''),
       (case check_out_time record of Some t \<Rightarrow> toLocaleString t | None \<Rightarrow> ''-''),
       numToString (or_zero (total_hours record)),
       statusString (status record)])"

text \<open>\<open>Array.prototype.join\<close>\<close>

fun join :: "string \<Rightarrow> string list \<Rightarrow> string" where
  "join sep [] = []"
| "join sep [x] = x"
| "join sep (x # y # xs) = x @ sep @ join sep (y # xs)"

definition quoteCell :: "string \<Rightarrow> string" where
  "quoteCell cell = [CHR 0x22] @ cell @ [CHR 0x22]"

definition csvContent :: "string list list \<Rightarrow> string" where
  "csvContent rows =
     join [CHR 0x0A] (join '','' headers # map (\<lambda>row. join '','' (map quoteCell row)) rows)"

definition exportToCSV ::
  "(int \<Rightarrow> string) \<Rightarrow> (jsnum \<Rightarrow> string) \<Rightarrow> (AttendanceRecord \<times> Profile) list \<Rightarrow> string" where
  "exportToCSV toLocaleString numToString attendance =
     csvContent (map (csvCells toLocaleString numToString) attendance)"

section \<open>The department rollup keeps every bucket populated\<close>

definition count_ok :: "DeptCount \<Rightarrow> bool" where
  "count_ok s = (1 \<le> total_count s \<and> 0 \<le> present_count s \<and> present_count s \<le> total_count s)"

lemma map_get_in_set: "map_get m k = Some v \<Longrightarrow> (k, v) \<in> set m"
  by (induction m) (auto split: if_splits)

lemma map_set_subset: "set (map_set m k v) \<subseteq> insert (k, v) (set m)"
  by (induction m) (auto split: if_splits)

lemma map_get_map_set: "map_get (map_set m k v) k = Some v"
  by (induction m) auto

lemma map_set_twice: "map_set (map_set m k z) k v = map_set m k v"
  by (induction m) auto

lemma map_has_get: "map_has m k \<Longrightarrow> \<exists>v. map_get m k = Some v"
  by (induction m) auto

lemma deptStep_ok:
  assumes inv: "\<forall>(k, s) \<in> set m. count_ok s"
  shows "\<forall>(k, s) \<in> set (deptStep ids m p). count_ok s"
proof -
  define dept where "dept = (if department p = [] then ''Unassigned'' else department p)"
  define bump where "bump = (\<lambda>stats :: DeptCount.
      (let s1 = stats\<lparr>total_count := total_count stats + 1\<rparr>
       in if profile_id p \<in> ids then s1\<lparr>present_count := present_count s1 + 1\<rparr> else s1))"
  have bump_ok: "count_ok (bump s)"
    if "0 \<le> present_count s" "present_count s \<le> total_count s" for s
    using that by (simp add: bump_def count_ok_def Let_def)
  have "\<exists>s. deptStep ids m p = map_set m dept (bump s) \<and> count_ok (bump s)"
  proof (cases "map_has m dept")
    case True
    then obtain stats where g: "map_get m dept = Some stats"
      using map_has_get by blast
    then have "(dept, stats) \<in> set m" by (rule map_get_in_set)
    with inv have "count_ok stats" by auto
    then have "count_ok (bump stats)" by (intro bump_ok) (simp_all add: count_ok_def)
    moreover have "deptStep ids m p = map_set m dept (bump stats)"
      using True g by (simp add: deptStep_def Let_def dept_def [symmetric] bump_def)
    ultimately show ?thesis by blast
  next
    case False
    let ?z = "\<lparr>present_count = 0, total_count = 0\<rparr>"
    have "deptStep ids m p = map_set (map_set m dept ?z) dept (bump ?z)"
      using False
      by (simp add: deptStep_def Let_def dept_def [symmetric] bump_def map_get_map_set)
    then have "deptStep ids m p = map_set m dept (bump ?z)"
      by (simp add: map_set_twice)
    moreover have "count_ok (bump ?z)" by (intro bump_ok) simp_all
    ultimately show ?thesis by blast
  qed
  then obtain s where eq: "deptStep ids m p = map_set m dept (bump s)"
    and ok: "count_ok (bump s)" by blast
  show ?thesis
    unfolding eq using map_set_subset [of m dept "bump s"] inv ok by auto
qed

lemma foldl_deptStep_ok:
  "\<forall>(k, s) \<in> set m. count_ok s \<Longrightarrow>
   \<forall>(k, s) \<in> set (foldl (deptStep ids) m ps). count_ok s"
proof (induction ps arbitrary: m)
  case Nil
  then show ?case by simp
next
  case (Cons p ps)
  from Cons.prems have "\<forall>(k, s) \<in> set (deptStep ids m p). count_ok s"
    by (rule deptStep_ok)
  then show ?case using Cons.IH by simp
qed

text \<open>
  What a bucket counts: \<open>deptKey\<close> is the key of a profile (\<open>p.department ||
  'Unassigned'\<close>), \<open>bump\<close> the two increments of a turn.
\<close>

definition deptKey :: "Profile \<Rightarrow> string" where
  "deptKey p = (if department p = [] then ''Unassigned'' else department p)"

definition bump :: "string set \<Rightarrow> Profile \<Rightarrow> DeptCount \<Rightarrow> DeptCount" where
  "bump ids p s =
     \<lparr>present_count = present_count s + (if profile_id p \<in> ids then 1 else 0),
      total_count = total_count s + 1\<rparr>"

definition count_of :: "DeptMap \<Rightarrow> string \<Rightarrow> DeptCount" where
  "count_of m k = (case map_get m k of None \<Rightarrow> \<lparr>present_count = 0, total_count = 0\<rparr> | Some s \<Rightarrow> s)"

lemma map_has_iff: "map_has m k \<longleftrightarrow> map_get m k \<noteq> None"
  by (induction m) (auto split: if_splits)

lemma map_get_map_set_other: "k' \<noteq> k \<Longrightarrow> map_get (map_set m k v) k' = map_get m k'"
  by (induction m) auto

lemma keys_map_set:
  "map fst (map_set m k v) = (if map_has m k then map fst m else map fst m @ [k])"
  by (induction m) (auto split: if_splits)

lemma map_has_keys: "map_has m k \<longleftrightarrow> k \<in> set (map fst m)"
  by (induction m) (auto split: if_splits)

lemma count_of_Nil: "count_of [] k = \<lparr>present_count = 0, total_count = 0\<rparr>"
  by (simp add: count_of_def)

lemma distinct_map_set: "distinct (map fst m) \<Longrightarrow> distinct (map fst (map_set m k v))"
  by (simp add: keys_map_set map_has_keys)

lemma deptStep_eq:
  "deptStep ids m p = map_set m (deptKey p) (bump ids p (count_of m (deptKey p)))"
proof (cases "map_has m (deptKey p)")
  case True
  then obtain s where "map_get m (deptKey p) = Some s" using map_has_get by blast
  with True show ?thesis
    by (cases s) (simp add: deptStep_def Let_def deptKey_def [symmetric] bump_def count_of_def)
next
  case False
  then have "map_get m (deptKey p) = None" by (simp add: map_has_iff)
  with False show ?thesis
    by (simp add: deptStep_def Let_def deptKey_def [symmetric] bump_def count_of_def
        map_get_map_set map_set_twice)
qed

lemma count_of_deptStep:
  "count_of (deptStep ids m p) k =
     (if k = deptKey p then bump ids p (count_of m k) else count_of m k)"
  by (simp add: deptStep_eq count_of_def map_get_map_set map_get_map_set_other)

lemma map_has_deptStep: "map_has (deptStep ids m p) k \<longleftrightarrow> k = deptKey p \<or> map_has m k"
proof (cases "k = deptKey p")
  case True
  then show ?thesis by (simp add: deptStep_eq map_has_iff map_get_map_set)
next
  case False
  then show ?thesis by (simp add: deptStep_eq map_has_iff map_get_map_set_other)
qed

lemma distinct_deptStep: "distinct (map fst m) \<Longrightarrow> distinct (map fst (deptStep ids m p))"
  by (simp add: deptStep_eq distinct_map_set)

lemma foldl_deptStep_counts:
  "count_of (foldl (deptStep ids) m ps) k =
     \<lparr>present_count = present_count (count_of m k)
        + int (length (filter (\<lambda>p. deptKey p = k \<and> profile_id p \<in> ids) ps)),
      total_count = total_count (count_of m k)
        + int (length (filter (\<lambda>p. deptKey p = k) ps))\<rparr>"
proof (induction ps arbitrary: m)
  case Nil
  then show ?case by simp
next
  case (Cons p ps)
  show ?case by (simp add: Cons.IH count_of_deptStep bump_def)
qed

lemma foldl_deptStep_distinct:
  "distinct (map fst m) \<Longrightarrow> distinct (map fst (foldl (deptStep ids) m ps))"
  by (induction ps arbitrary: m) (simp_all add: distinct_deptStep)

lemma map_get_distinct: "distinct (map fst m) \<Longrightarrow> (k, s) \<in> set m \<Longrightarrow> map_get m k = Some s"
  by (induction m) (auto simp: rev_image_eqI)

lemma departmentStats_counts:
  assumes "b \<in> set (departmentStats profiles ids)"
  shows "dept_total b = int (length (filter
            (\<lambda>p. role p = employee \<and> deptKey p = dept_name b) profiles))
       \<and> dept_present b = int (length (filter
            (\<lambda>p. role p = employee \<and> deptKey p = dept_name b \<and> profile_id p \<in> ids) profiles))"
proof -
  let ?es = "filter (\<lambda>p. role p = employee) profiles"
  let ?m = "foldl (deptStep ids) [] ?es"
  from assms obtain k s where ks: "(k, s) \<in> set ?m"
    and b: "b = \<lparr>dept_name = k, dept_present = present_count s, dept_total = total_count s\<rparr>"
    by (auto simp: departmentStats_def)
  have "distinct (map fst ?m)" by (rule foldl_deptStep_distinct) simp
  then have "map_get ?m k = Some s" using ks by (rule map_get_distinct)
  then have "count_of ?m k = s" by (simp add: count_of_def)
  moreover have "count_of ?m k =
     \<lparr>present_count = int (length (filter (\<lambda>p. deptKey p = k \<and> profile_id p \<in> ids) ?es)),
      total_count = int (length (filter (\<lambda>p. deptKey p = k) ?es))\<rparr>"
    by (simp add: foldl_deptStep_counts count_of_Nil)
  ultimately have "s = \<lparr>present_count = int (length (filter (\<lambda>p. deptKey p = k \<and> profile_id p \<in> ids) ?es)),
      total_count = int (length (filter (\<lambda>p. deptKey p = k) ?es))\<rparr>"
    by simp
  then show ?thesis by (simp add: b conj_commute)
qed

section \<open>The loops of the calendar grid\<close>

lemma pushNulls_eq: "pushNulls i (Some n) days = days @ replicate (nat (n - i)) None"
proof (induction i "Some n" days rule: pushNulls.induct)
  case (1 i days)
  show ?case
  proof (cases "i < n")
    case True
    then have "nat (n - i) = Suc (nat (n - (i + 1)))" by simp
    then have "replicate (nat (n - i)) (None :: int option) = None # replicate (nat (n - (i + 1))) None"
      by simp
    with True 1 show ?thesis by (subst pushNulls.simps) (simp add: js_less_def)
  next
    case False
    then show ?thesis by (subst pushNulls.simps) (simp add: js_less_def)
  qed
qed

lemma pushNulls_NaN: "pushNulls i None days = days"
  by (subst pushNulls.simps) (simp add: js_less_def)

lemma pushDays_eq: "pushDays i (Some n) days = days @ map Some [i..n]"
proof (induction i "Some n" days rule: pushDays.induct)
  case (1 i days)
  show ?case
  proof (cases "i \<le> n")
    case True
    then have "[i..n] = i # [i + 1..n]" by (simp add: upto_rec1)
    with True 1 show ?thesis by (subst pushDays.simps) (simp add: js_less_eq_def)
  next
    case False
    then show ?thesis by (subst pushDays.simps) (simp add: js_less_eq_def)
  qed
qed

lemma pushDays_NaN: "pushDays i None days = days"
  by (subst pushDays.simps) (simp add: js_less_eq_def)

lemma monthLen_pos: "0 \<le> l \<Longrightarrow> 0 \<le> m \<Longrightarrow> m < 12 \<Longrightarrow> 28 \<le> monthLen l m"
  by (erule (1) month_cases) (simp_all add: monthLen_def monthStart_def)

text \<open>The first and the last day of a month, as \<open>MakeDay\<close> makes them.\<close>

lemma first_of_month:
  assumes "0 \<le> m" "m < 12" "0 \<le> tw" "tw < msPerDay"
  shows "YearFromTime (MakeDate (MakeDay y m 1) tw) = y
       \<and> MonthFromTime (MakeDate (MakeDay y m 1) tw) = m
       \<and> DateFromTime (MakeDate (MakeDay y m 1) tw) = 0 + 1"
proof (rule in_month)
  have mm: "m div 12 = 0" "m mod 12 = m" using assms by simp_all
  show "Day (MakeDate (MakeDay y m 1) tw) = DayFromYear y + monthStart (leapDays y) m + 0"
    using assms by (simp add: Day_MakeDate MakeDay_def Let_def mm leapDays_def)
  show "0 < monthLength y m"
    using monthLen_pos [OF leapDays_bounds(1) assms(1,2), of y] assms
    by (simp add: monthLength_monthLen)
qed (use assms in simp_all)

lemma last_of_month:
  assumes m: "0 \<le> m" "m < 12"
  shows "DateFromTime (MakeDate (MakeDay y (m + 1) 0) 0) = monthLength y m"
proof -
  define l where "l = leapDays y"
  define k where "k = monthLength y m - 1"
  have len: "monthLength y m = monthLen l m" using m by (simp add: monthLength_monthLen l_def)
  have "MakeDay y (m + 1) 0 = DayFromYear y + monthStart l m + k"
  proof (cases "m = 11")
    case True
    have "MakeDay y 12 0 = DayFromYear (y + 1) - 1"
      by (simp add: MakeDay_def Let_def monthStart_def)
    also have "\<dots> = DayFromYear y + DaysInYear y - 1" by (simp add: DayFromYear_Suc)
    also have "\<dots> = DayFromYear y + monthStart l 11 + (monthLen l 11 - 1)"
      using leapDays_bounds(3) [of y] by (simp add: monthStart_def monthLen_def l_def)
    finally show ?thesis using True len by (simp add: k_def)
  next
    case False
    with m have m1: "(m + 1) div 12 = 0" "(m + 1) mod 12 = m + 1" by simp_all
    have "monthStart l (m + 1) = monthStart l m + monthLen l m"
      using False by (simp add: monthLen_def)
    then show ?thesis
      by (simp add: MakeDay_def Let_def m1 k_def len l_def leapDays_def)
  qed
  then have "Day (MakeDate (MakeDay y (m + 1) 0) 0) = DayFromYear y + monthStart (leapDays y) m + k"
    by (simp add: Day_MakeDate msPerDay_def l_def)
  moreover have "0 \<le> k" "k < monthLength y m"
    using monthLen_pos [OF leapDays_bounds(1) m, of y] by (simp_all add: k_def len l_def)
  ultimately have "DateFromTime (MakeDate (MakeDay y (m + 1) 0) 0) = k + 1"
    using in_month [OF _ m] by blast
  then show ?thesis by (simp add: k_def)
qed

text \<open>
  The grid in terms of the two dates the function builds: the nulls are those of
  the weekday of the first, the day numbers run to the date of the second, and an
  Invalid Date gives none.
\<close>

lemma getDaysInMonth_eq:
  "getDaysInMonth z currentMonth =
     (let y = MakeFullYear (getFullYear z currentMonth); m = getMonth z currentMonth
      in (case TimeClip (UTC z (MakeDate (MakeDay y m 1) 0)) of
            None \<Rightarrow> []
          | Some firstDay \<Rightarrow> replicate (nat (WeekDay (LocalTime z firstDay))) None)
         @ (case TimeClip (UTC z (MakeDate (MakeDay y (m + 1) 0) 0)) of
              None \<Rightarrow> []
            | Some lastDay \<Rightarrow> map Some [1..DateFromTime (LocalTime z lastDay)]))"
  by (simp add: getDaysInMonth_def Let_def newDate_def getDay_def getDate_def
      pushNulls_eq pushNulls_NaN pushDays_eq pushDays_NaN split: option.splits)

lemma WeekDay_Day: "Day s = Day t \<Longrightarrow> WeekDay s = WeekDay t"
  by (simp add: WeekDay_def)

lemma DateFromTime_Day: "Day s = Day t \<Longrightarrow> DateFromTime s = DateFromTime t"
  by (simp add: DateFromTime_def DayWithinYear_def InLeapYear_def YearFromTime_def
      MonthFromTime_def)

section \<open>Check-in: the status rule and the date of the record\<close>

lemma hour_threshold: "9 \<le> HourFromTime t \<longleftrightarrow> 9 * msPerHour \<le> TimeWithinDay t"
proof -
  have "t mod (3600000 * 24) = 3600000 * (t div 3600000 mod 24) + t mod 3600000"
    by (rule zmod_zmult2_eq) simp
  moreover have "0 \<le> t mod 3600000" "t mod 3600000 < 3600000" by simp_all
  ultimately show ?thesis
    unfolding HourFromTime_def TimeWithinDay_def msPerHour_def msPerDay_def by simp linarith
qed

lemma checkInStatus_threshold:
  "checkInStatus z now =
     (if 9 * msPerHour \<le> TimeWithinDay (LocalTime z now) then late else present)"
  by (simp add: checkInStatus_def getHours_def hour_threshold)

text \<open>
  C1. A check-in that finds no record of the user for the day appends the day's
  record, whose status is \<open>late\<close> when the local time of day of \<open>now\<close> is 09:00:00
  or later and \<open>present\<close> otherwise: 08:59:59 gives \<open>present\<close>, 09:00:00 gives
  \<open>late\<close>. The rule never gives \<open>absent\<close> or \<open>half-day\<close>.
\<close>

theorem checkin_status_rule:
  assumes "\<not> (\<exists>r \<in> set store. user_id r = uid \<and> date r = toISODate now)"
  shows "handleCheckIn z dflt (Some uid) now store =
           (None, store @ [\<lparr>record_id = fst dflt, user_id = uid, date = toISODate now,
              check_in_time = Some now, check_out_time = None,
              status = (if 9 \<le> HourFromTime (LocalTime z now) then late else present),
              total_hours = Some (Fin 0), created_at = snd dflt\<rparr>])
       \<and> (9 \<le> HourFromTime (LocalTime z now)
            \<longleftrightarrow> 9 * 3600000 \<le> TimeWithinDay (LocalTime z now))
       \<and> (TimeWithinDay (LocalTime z now) = 8 * 3600000 + 59 * 60000 + 59 * 1000
            \<longrightarrow> checkInStatus z now = present)
       \<and> (TimeWithinDay (LocalTime z now) = 9 * 3600000 \<longrightarrow> checkInStatus z now = late)
       \<and> checkInStatus z now \<noteq> absent \<and> checkInStatus z now \<noteq> half_day"
proof -
  have "handleCheckIn z dflt (Some uid) now store =
           (None, store @ [\<lparr>record_id = fst dflt, user_id = uid, date = toISODate now,
              check_in_time = Some now, check_out_time = None,
              status = (if 9 \<le> HourFromTime (LocalTime z now) then late else present),
              total_hours = Some (Fin 0), created_at = snd dflt\<rparr>])"
    using assms
    by (simp add: handleCheckIn_def insert_attendance_def checkInStatus_def getHours_def Let_def)
  moreover have "9 \<le> HourFromTime (LocalTime z now)
      \<longleftrightarrow> 9 * 3600000 \<le> TimeWithinDay (LocalTime z now)"
    using hour_threshold [of "LocalTime z now"] by (simp add: msPerHour_def)
  moreover have "TimeWithinDay (LocalTime z now) = 8 * 3600000 + 59 * 60000 + 59 * 1000
      \<longrightarrow> checkInStatus z now = present"
    by (simp add: checkInStatus_threshold msPerHour_def)
  moreover have "TimeWithinDay (LocalTime z now) = 9 * 3600000 \<longrightarrow> checkInStatus z now = late"
    by (simp add: checkInStatus_threshold msPerHour_def)
  moreover have "checkInStatus z now \<noteq> absent \<and> checkInStatus z now \<noteq> half_day"
    by (simp add: checkInStatus_def Let_def)
  ultimately show ?thesis by blast
qed

lemmas date_eval = toISODate_def yearString_def YearFromTime_def MonthFromTime_def
  DateFromTime_def DayWithinYear_def InLeapYear_def DaysInYear_def DayFromYear_def
  Day_def msPerDay_def yearUp.simps Let_def pad_numeral

text \<open>
  A check-in at 08:59:59 local time on 2 January 2024, in a zone at UTC, into an
  empty table.
\<close>

theorem checkin_status_rule_witness:
  "handleCheckIn (fixed_zone 0) (''r1'', 1704185999000) (Some ''u1'') 1704185999000 [] =
     (None, [\<lparr>record_id = ''r1'', user_id = ''u1'', date = ''2024-01-02'',
        check_in_time = Some 1704185999000, check_out_time = None,
        status = present, total_hours = Some (Fin 0), created_at = 1704185999000\<rparr>])
   \<and> TimeWithinDay (LocalTime (fixed_zone 0) 1704185999000) = 8 * 3600000 + 59 * 60000 + 59 * 1000
   \<and> checkInStatus (fixed_zone 0) 1704185999000 = present"
proof -
  have h: "\<not> (\<exists>r \<in> set []. user_id r = ''u1'' \<and> date r = toISODate 1704185999000)"
    by simp
  have d: "toISODate 1704185999000 = ''2024-01-02''" by (simp add: date_eval)
  have t: "TimeWithinDay (LocalTime (fixed_zone 0) 1704185999000) = 8 * 3600000 + 59 * 60000 + 59 * 1000"
    by (simp add: TimeWithinDay_def fixed_zone_LocalTime msPerDay_def)
  have hr: "HourFromTime (LocalTime (fixed_zone 0) 1704185999000) = 8"
    by (simp add: HourFromTime_def fixed_zone_LocalTime msPerHour_def)
  from checkin_status_rule [OF h, of "fixed_zone 0" "(''r1'', 1704185999000)"] t
  show ?thesis by (simp add: d hr)
qed


section \<open>Department buckets and the percentages\<close>

lemma departmentStats_ok:
  assumes "b \<in> set (departmentStats profiles presentUserIds)"
  shows "1 \<le> dept_total b \<and> 0 \<le> dept_present b \<and> dept_present b \<le> dept_total b"
proof -
  let ?m = "foldl (deptStep presentUserIds) [] (filter (\<lambda>p. role p = employee) profiles)"
  have inv: "\<forall>(k, s) \<in> set ?m. count_ok s"
    by (rule foldl_deptStep_ok) simp
  from assms obtain k s where ks: "(k, s) \<in> set ?m"
    and b: "b = \<lparr>dept_name = k, dept_present = present_count s, dept_total = total_count s\<rparr>"
    by (auto simp: departmentStats_def)
  from inv ks have "count_ok s" by auto
  then show ?thesis by (simp add: b count_ok_def)
qed

lemma num_div_counts:
  "t \<noteq> 0 \<Longrightarrow> num_div (num_of_int p) (num_of_int t) = Fin (fl (of_int p / of_int t))"
  by (simp add: num_of_int_def)

lemma percentage_guard: "0 < t \<Longrightarrow> deptPercentage p t = todayPercentage t p"
  by (simp add: deptPercentage_def todayPercentage_def)

text \<open>
  C10. Every bucket of the department rollup has \<open>total \<ge> 1\<close> and
  \<open>0 \<le> present \<le> total\<close>: \<open>total\<close> is the number of employees of the
  department, \<open>present\<close> the number of those whose id is in the present set. So
  the division \<open>dept.present / dept.total\<close> of the page is a division by a number
  that is not zero, and gives the finite quotient.
\<close>

theorem department_buckets_populated:
  "\<forall>b \<in> set (departmentStats profiles presentUserIds).
     1 \<le> dept_total b \<and> 0 \<le> dept_present b \<and> dept_present b \<le> dept_total b
     \<and> dept_total b = int (length (filter
           (\<lambda>p. role p = employee \<and> deptKey p = dept_name b) profiles))
     \<and> dept_present b = int (length (filter
           (\<lambda>p. role p = employee \<and> deptKey p = dept_name b
                 \<and> profile_id p \<in> presentUserIds) profiles))
     \<and> num_div (num_of_int (dept_present b)) (num_of_int (dept_total b))
         = Fin (fl (of_int (dept_present b) / of_int (dept_total b)))"
proof
  fix b assume b: "b \<in> set (departmentStats profiles presentUserIds)"
  then have ok: "1 \<le> dept_total b \<and> 0 \<le> dept_present b \<and> dept_present b \<le> dept_total b"
    by (rule departmentStats_ok)
  then have "dept_total b \<noteq> 0" by simp
  then have "num_div (num_of_int (dept_present b)) (num_of_int (dept_total b))
         = Fin (fl (of_int (dept_present b) / of_int (dept_total b)))"
    by (rule num_div_counts)
  with ok departmentStats_counts [OF b]
  show "1 \<le> dept_total b \<and> 0 \<le> dept_present b \<and> dept_present b \<le> dept_total b
     \<and> dept_total b = int (length (filter
           (\<lambda>p. role p = employee \<and> deptKey p = dept_name b) profiles))
     \<and> dept_present b = int (length (filter
           (\<lambda>p. role p = employee \<and> deptKey p = dept_name b
                 \<and> profile_id p \<in> presentUserIds) profiles))
     \<and> num_div (num_of_int (dept_present b)) (num_of_int (dept_total b))
         = Fin (fl (of_int (dept_present b) / of_int (dept_total b)))"
    by blast
qed

definition demo_profiles :: "Profile list" where
  "demo_profiles =
     [\<lparr>profile_id = ''u1'', name = ''Asha'', email = ''asha@example.com'', role = employee,
        employee_id = ''EMP001'', department = ''Engineering'', profile_created_at = 0\<rparr>,
      \<lparr>profile_id = ''u2'', name = ''Bo'', email = ''bo@example.com'', role = employee,
        employee_id = ''EMP002'', department = [], profile_created_at = 0\<rparr>,
      \<lparr>profile_id = ''u3'', name = ''Chen'', email = ''chen@example.com'', role = manager,
        employee_id = ''MGR001'', department = ''Engineering'', profile_created_at = 0\<rparr>,
      \<lparr>profile_id = ''u4'', name = ''Dee'', email = ''dee@example.com'', role = employee,
        employee_id = ''EMP003'', department = ''Engineering'', profile_created_at = 0\<rparr>]"

lemma demo_departmentStats:
  "departmentStats demo_profiles {''u1'', ''u3''} =
     [\<lparr>dept_name = ''Engineering'', dept_present = 1, dept_total = 2\<rparr>,
      \<lparr>dept_name = ''Unassigned'', dept_present = 0, dept_total = 1\<rparr>]"
  by (simp add: departmentStats_def demo_profiles_def deptStep_def)

theorem department_buckets_populated_witness:
  "departmentStats demo_profiles {''u1'', ''u3''} =
     [\<lparr>dept_name = ''Engineering'', dept_present = 1, dept_total = 2\<rparr>,
      \<lparr>dept_name = ''Unassigned'', dept_present = 0, dept_total = 1\<rparr>]
   \<and> num_div (num_of_int 1) (num_of_int 2) = Fin (fl (1 / 2))
   \<and> num_div (num_of_int 0) (num_of_int 1) = Fin (fl (0 / 1))"
  using department_buckets_populated [of demo_profiles "{''u1'', ''u3''}"]
  by (simp add: demo_departmentStats)

lemma todayPercentage_nearest:
  assumes "0 < w" "\<bar>p\<bar> \<le> 2 ^ 44"
  shows "\<exists>n. todayPercentage w p = Fin (of_int n)
           \<and> \<bar>of_int n - 100 * of_int p / of_int w\<bar> \<le> (1 / 2 :: rat)"
proof -
  let ?n = "\<lfloor>fl (fl (of_int p / of_int w) * 100) + 1 / 2\<rfloor>"
  have "todayPercentage w p = Fin (of_int ?n)"
    using assms(1) by (simp add: todayPercentage_def num_of_int_def)
  moreover have "\<bar>of_int ?n - 100 * of_int p / of_int w\<bar> \<le> (1 / 2 :: rat)"
    using assms by (rule round_pct_nearest)
  ultimately show ?thesis by blast
qed

text \<open>
  The two rounded percentages of the manager dashboard. The attendance
  percentage of the day is guarded: it is 0 when the head count is 0 and
  otherwise \<open>Math.round((part / whole) * 100)\<close>, an integer nearest to
  \<open>100 * part / whole\<close> (for counts up to \<open>2^44\<close>; of two nearest integers the
  double arithmetic may give either). The percentage of a department is written
  without the guard; on every bucket of the rollup its divisor is not zero and
  its value is that of the guarded form.
\<close>

lemma rounded_percentages:
  "todayPercentage 0 p = Fin 0
   \<and> (0 < w \<and> \<bar>p\<bar> \<le> 2 ^ 44 \<longrightarrow>
        (\<exists>n. todayPercentage w p = Fin (of_int n)
           \<and> \<bar>of_int n - 100 * of_int p / of_int w\<bar> \<le> (1 / 2 :: rat)))
   \<and> (\<forall>b \<in> set (departmentStats profiles presentUserIds).
        dept_total b \<noteq> 0
        \<and> deptPercentage (dept_present b) (dept_total b)
            = todayPercentage (dept_total b) (dept_present b))"
proof (intro conjI impI ballI)
  show "todayPercentage 0 p = Fin 0" by (simp add: todayPercentage_def)
next
  assume "0 < w \<and> \<bar>p\<bar> \<le> 2 ^ 44"
  then show "\<exists>n. todayPercentage w p = Fin (of_int n)
           \<and> \<bar>of_int n - 100 * of_int p / of_int w\<bar> \<le> (1 / 2 :: rat)"
    using todayPercentage_nearest by blast
next
  fix b assume b: "b \<in> set (departmentStats profiles presentUserIds)"
  from departmentStats_ok [OF b] show "dept_total b \<noteq> 0" by simp
  from departmentStats_ok [OF b] have "0 < dept_total b" by simp
  then show "deptPercentage (dept_present b) (dept_total b)
      = todayPercentage (dept_total b) (dept_present b)"
    by (rule percentage_guard)
qed

lemma todayPercentage_2_1: "todayPercentage 2 1 = Fin 50"
  by code_simp

section \<open>Check-out: the hours written to the record\<close>

lemma checkOutHours_eq:
  assumes "\<bar>out - c\<bar> \<le> 2 ^ 44"
  shows "checkOutHours c out =
     Fin (fl (of_int \<lfloor>fl (fl (of_int (out - c) / of_int 3600000) * 100) + 1 / 2\<rfloor> / 100))"
proof -
  have "\<bar>out - c\<bar> < 2 ^ 53" using assms by simp
  then have "fl (of_int (out - c)) = of_int (out - c)" by (rule fl_int)
  then have "num_sub (num_of_int out) (num_of_int c) = Fin (of_int (out - c))"
    by (simp add: num_sub_def num_of_int_def)
  then show ?thesis by (simp add: checkOutHours_def)
qed

text \<open>What the column \<open>numeric(4,2)\<close> makes of the double nearest to \<open>n / 100\<close>.\<close>

lemma round_half_away_near:
  assumes "\<bar>x - of_int n\<bar> < 1 / 2"
  shows "round_half_away x = n"
proof -
  have b: "x - of_int n < 1 / 2" "of_int n - x < 1 / 2"
    using assms by linarith+
  show ?thesis
  proof (cases "0 \<le> x")
    case True
    have "of_int n \<le> x + 1 / 2" "x + 1 / 2 < of_int n + 1" using b by linarith+
    then have "\<lfloor>x + 1 / 2\<rfloor> = n" by (simp only: floor_unique)
    with True show ?thesis by (simp add: round_half_away_def)
  next
    case False
    have m: "(of_int (- n) :: rat) = - of_int n" by simp
    have "of_int (- n) \<le> - x + 1 / 2" "- x + 1 / 2 < of_int (- n) + 1"
      unfolding m using b by linarith+
    then have "\<lfloor>- x + 1 / 2\<rfloor> = - n" by (simp only: floor_unique)
    with False show ?thesis by (simp add: round_half_away_def)
  qed
qed

lemma hundredths_roundtrip:
  assumes "\<bar>n\<bar> < 2 ^ 52"
  shows "round_half_away (fl (of_int n / 100) * 100) = n"
proof (rule round_half_away_near)
  define y :: rat where "y = of_int n / 100"
  have "\<bar>of_int n :: rat\<bar> < 2 ^ 52"
  proof -
    have "(of_int \<bar>n\<bar> :: rat) < of_int (2 ^ 52)" using assms by (simp only: of_int_less_iff)
    then show ?thesis by simp
  qed
  then have y: "\<bar>y\<bar> * 100 < 2 ^ 52" by (simp add: y_def)
  have "fl y * 100 - of_int n = (fl y - y) * 100" by (simp add: y_def algebra_simps)
  then have "\<bar>fl y * 100 - of_int n\<bar> = \<bar>fl y - y\<bar> * 100" by (simp only: abs_mult abs_numeral)
  also have "\<dots> \<le> (\<bar>y\<bar> * ulp_half) * 100"
    using fl_err [of y] by (rule mult_right_mono) simp
  also have "\<dots> = (\<bar>y\<bar> * 100) / 2 ^ 53" by (simp add: ulp_half_def)
  also have "\<dots> < 2 ^ 52 / 2 ^ 53" using y by (rule divide_strict_right_mono) simp
  finally show "\<bar>fl (of_int n / 100) * 100 - of_int n\<bar> < 1 / 2" by (simp add: y_def)
qed

lemma numeric_4_2_hundredths:
  assumes "\<bar>n\<bar> < 2 ^ 52"
  shows "numeric_4_2 (Fin (fl (of_int n / 100))) =
     (if 10000 \<le> \<bar>n\<bar> then Inl numeric_field_overflow
      else Inr (Some (Fin (fl (of_int n / 100)))))"
  by (simp add: numeric_4_2_def Let_def hundredths_roundtrip [OF assms])

lemma handleCheckOut_eq:
  assumes "check_in_time ta = Some c"
  shows "handleCheckOut (Some uid) (Some ta) now store =
     (case numeric_4_2 (checkOutHours c now) of
        Inl e \<Rightarrow> (Some e, store)
      | Inr held \<Rightarrow>
          (None, map (\<lambda>r. if record_id r = record_id ta
                          then r\<lparr>check_out_time := Some now, total_hours := held\<rparr>
                          else r) store))"
  using assms by (simp add: handleCheckOut_def update_attendance_def split: sum.splits)

text \<open>
  The check-out of a record with check-in time \<open>c\<close> at \<open>now\<close>, at most \<open>2^44\<close>
  ms (some 557 years) apart: \<open>n\<close> is the number of hundredths of an hour that
  \<open>Math.round\<close> gives, a nearest one to the elapsed time; the value sent is the
  double nearest to \<open>n / 100\<close>, which the column takes when \<open>n\<close> is below 10000
  in absolute value and refuses otherwise.
\<close>

lemma handleCheckOut_cases:
  assumes "check_in_time ta = Some c" and "\<bar>now - c\<bar> \<le> 2 ^ 44"
    and "n = \<lfloor>fl (fl (of_int (now - c) / of_int 3600000) * 100) + 1 / 2\<rfloor>"
  shows "\<bar>of_int n - of_int (now - c) / 36000\<bar> \<le> (1 / 2 :: rat)"
    and "\<bar>of_int n / 100 - of_int (now - c) / 3600000\<bar> \<le> (1 / 200 :: rat)"
    and "handleCheckOut (Some uid) (Some ta) now store =
           (if \<bar>n\<bar> < 10000
            then (None, map (\<lambda>r. if record_id r = record_id ta
                                 then r\<lparr>check_out_time := Some now,
                                        total_hours := Some (Fin (fl (of_int n / 100)))\<rparr>
                                 else r) store)
            else (Some numeric_field_overflow, store))"
proof -
  define D :: rat where "D = of_int (now - c)"
  have e: "100 * D / of_int 3600000 = D / 36000" by simp
  have "\<bar>of_int n - 100 * of_int (now - c) / of_int 3600000\<bar> \<le> (1 / 2 :: rat)"
    unfolding assms(3) using _ assms(2) by (rule round_pct_nearest) simp
  then have near': "\<bar>of_int n - D / 36000\<bar> \<le> 1 / 2" by (simp only: D_def [symmetric] e)
  then show near: "\<bar>of_int n - of_int (now - c) / 36000\<bar> \<le> (1 / 2 :: rat)"
    by (simp only: D_def)
  have "of_int n / 100 - D / 3600000 = (of_int n - D / 36000) / 100" by simp
  then have "\<bar>of_int n / 100 - D / 3600000\<bar> = \<bar>of_int n - D / 36000\<bar> / 100"
    by (simp only: abs_divide abs_numeral)
  also have "\<dots> \<le> (1 / 2) / 100" using near' by (rule divide_right_mono) simp
  finally show "\<bar>of_int n / 100 - of_int (now - c) / 3600000\<bar> \<le> (1 / 200 :: rat)"
    by (simp add: D_def)
  have "\<bar>D\<bar> \<le> 2 ^ 44"
  proof -
    have "(of_int \<bar>now - c\<bar> :: rat) \<le> of_int (2 ^ 44)" using assms(2) by (simp only: of_int_le_iff)
    then show ?thesis by (simp add: D_def)
  qed
  then have "\<bar>D / 36000\<bar> \<le> 2 ^ 44" by simp
  moreover have "\<bar>of_int n :: rat\<bar> \<le> \<bar>D / 36000\<bar> + 1 / 2" using near' by linarith
  ultimately have "\<bar>of_int n :: rat\<bar> \<le> 2 ^ 44 + 1 / 2" by linarith
  also have "\<dots> < 2 ^ 52" by simp
  finally have "\<bar>of_int n :: rat\<bar> < 2 ^ 52" .
  then have "(of_int \<bar>n\<bar> :: rat) < of_int (2 ^ 52)" by simp
  then have n52: "\<bar>n\<bar> < 2 ^ 52" by (simp only: of_int_less_iff)
  have "checkOutHours c now = Fin (fl (of_int n / 100))"
    using assms(2) by (simp only: checkOutHours_eq assms(3))
  then show "handleCheckOut (Some uid) (Some ta) now store =
           (if \<bar>n\<bar> < 10000
            then (None, map (\<lambda>r. if record_id r = record_id ta
                                 then r\<lparr>check_out_time := Some now,
                                        total_hours := Some (Fin (fl (of_int n / 100)))\<rparr>
                                 else r) store)
            else (Some numeric_field_overflow, store))"
    by (simp add: handleCheckOut_eq [OF assms(1)] numeric_4_2_hundredths [OF n52])
qed

text \<open>
  C2, as the code and the schema have it. For a record with a check-in time \<open>c\<close>
  and a check-out at \<open>now\<close> (at most \<open>2^44\<close> ms apart), let \<open>n / 100\<close> be the
  elapsed hours \<open>(now - c) / 3600000\<close> rounded to a nearest multiple of 0.01 by
  \<open>Math.round\<close>. When \<open>n / 100\<close> is below 100 in absolute value, which it is
  for a gap under 359982000 ms (99.995 hours), \<open>handleCheckOut\<close> reports no
  error and writes to the record the check-out time and \<open>total_hours\<close> = the
  double nearest to \<open>n / 100\<close>. Otherwise, which is so for every longer gap,
  the column \<open>numeric(4,2)\<close> refuses the value: the handler gets the error
  \<open>numeric field overflow\<close> and the table is as before.
\<close>

theorem checkout_total_hours:
  assumes "check_in_time ta = Some c" and "\<bar>now - c\<bar> \<le> 2 ^ 44"
  shows "\<exists>n. \<bar>of_int n / 100 - of_int (now - c) / 3600000\<bar> \<le> (1 / 200 :: rat)
         \<and> (\<bar>now - c\<bar> < 359982000 \<longrightarrow> \<bar>n\<bar> < 10000)
         \<and> (359982000 < \<bar>now - c\<bar> \<longrightarrow> 10000 \<le> \<bar>n\<bar>)
         \<and> handleCheckOut (Some uid) (Some ta) now store =
             (if \<bar>n\<bar> < 10000
              then (None, map (\<lambda>r. if record_id r = record_id ta
                                   then r\<lparr>check_out_time := Some now,
                                          total_hours := Some (Fin (fl (of_int n / 100)))\<rparr>
                                   else r) store)
              else (Some numeric_field_overflow, store))"
proof -
  define n where "n = \<lfloor>fl (fl (of_int (now - c) / of_int 3600000) * 100) + 1 / 2\<rfloor>"
  define D :: rat where "D = of_int (now - c)"
  note c = handleCheckOut_cases [OF assms n_def]
  have near: "\<bar>of_int n - D / 36000\<bar> \<le> 1 / 2" using c(1) by (simp add: D_def)
  have absD: "\<bar>D\<bar> = of_int \<bar>now - c\<bar>" by (simp add: D_def)
  have small: "\<bar>n\<bar> < 10000" if "\<bar>now - c\<bar> < 359982000"
  proof -
    have "(of_int \<bar>now - c\<bar> :: rat) < of_int 359982000" using that by (simp only: of_int_less_iff)
    then have "\<bar>D\<bar> < 359982000" by (simp add: absD)
    then have "\<bar>D / 36000\<bar> < 19999 / 2" by simp
    with near have "\<bar>of_int n :: rat\<bar> < 10000" by linarith
    then have "(of_int \<bar>n\<bar> :: rat) < of_int 10000" by simp
    then show ?thesis by (simp only: of_int_less_iff)
  qed
  have large: "10000 \<le> \<bar>n\<bar>" if "359982000 < \<bar>now - c\<bar>"
  proof -
    have "(of_int 359982000 :: rat) < of_int \<bar>now - c\<bar>" using that by (simp only: of_int_less_iff)
    then have "359982000 < \<bar>D\<bar>" by (simp add: absD)
    then have "19999 / 2 < \<bar>D / 36000\<bar>" by simp
    with near have "9999 < \<bar>of_int n :: rat\<bar>" by linarith
    then have "(of_int 9999 :: rat) < of_int \<bar>n\<bar>" by simp
    then have "9999 < \<bar>n\<bar>" by (simp only: of_int_less_iff)
    then show ?thesis by simp
  qed
  from c(2) c(3) [of uid store] small large show ?thesis by blast
qed

definition demo_record :: AttendanceRecord where
  "demo_record =
     \<lparr>record_id = ''r1'', user_id = ''u1'', date = ''2024-01-02'',
      check_in_time = Some 1704186000000, check_out_time = None,
      status = late, total_hours = Some (Fin 0), created_at = 1704186000000\<rparr>"

lemma demo_check_in: "check_in_time demo_record = Some 1704186000000"
  by (simp add: demo_record_def)

lemma checkOutHours_example: "checkOutHours 1704186000000 1704216600000 = Fin (17 / 2)"
  by code_simp

lemma numeric_4_2_example: "numeric_4_2 (Fin (17 / 2)) = Inr (Some (Fin (17 / 2)))"
  by code_simp

text \<open>Check-in at 09:00:00 and check-out at 17:30:00 of 2 January 2024: 8.5 hours.\<close>

theorem checkout_total_hours_witness:
  "check_in_time demo_record = Some 1704186000000
   \<and> \<bar>1704216600000 - 1704186000000 :: int\<bar> \<le> 2 ^ 44
   \<and> \<bar>1704216600000 - 1704186000000 :: int\<bar> < 359982000
   \<and> handleCheckOut (Some ''u1'') (Some demo_record) 1704216600000 [demo_record] =
       (None, [demo_record\<lparr>check_out_time := Some 1704216600000,
                           total_hours := Some (Fin (17 / 2))\<rparr>])"
proof -
  have h2: "\<bar>1704216600000 - 1704186000000 :: int\<bar> \<le> 2 ^ 44" by simp
  from checkout_total_hours [OF demo_check_in h2, of "''u1''" "[demo_record]"] demo_check_in h2
  show ?thesis
    by (simp add: handleCheckOut_eq [OF demo_check_in] checkOutHours_example numeric_4_2_example)
qed

lemma checkOutHours_hundred: "checkOutHours 1704186000000 1704546000000 = Fin 100"
  by code_simp

lemma numeric_4_2_hundred: "numeric_4_2 (Fin 100) = Inl numeric_field_overflow"
  by code_simp

text \<open>
  C2 as stated fails. A check-out 100 hours after the check-in (the page was
  left open from 2 January 09:00 to 6 January 13:00) computes
  \<open>total_hours = 100\<close>, which the column \<open>numeric(4,2)\<close> refuses: the update
  fails and the record keeps no check-out time and its \<open>total_hours\<close> of 0.
\<close>

theorem checkout_hundred_hours_refused:
  "checkOutHours 1704186000000 1704546000000 = Fin 100
   \<and> handleCheckOut (Some ''u1'') (Some demo_record) 1704546000000 [demo_record] =
       (Some numeric_field_overflow, [demo_record])
   \<and> check_out_time demo_record = None \<and> total_hours demo_record = Some (Fin 0)"
  by (simp add: handleCheckOut_eq [OF demo_check_in] checkOutHours_hundred numeric_4_2_hundred)
    (simp add: demo_record_def)

text \<open>
  C3, as the code and the schema have it. \<open>handleCheckOut\<close> has no check of the
  duration and no error for it. For a check-out that precedes the check-in \<open>c\<close>
  (by at most \<open>2^44\<close> ms), let \<open>n / 100\<close> be the elapsed hours rounded to a
  nearest multiple of 0.01; it is not positive. When the gap is under 359982000
  ms (99.995 hours) the handler reports no error and writes the check-out time
  and \<open>total_hours\<close> = the double nearest to \<open>n / 100\<close>, a value that is not
  positive, and negative once the gap exceeds 18 seconds. When the gap is longer
  the value is refused by the column \<open>numeric(4,2)\<close>: the error is \<open>numeric
  field overflow\<close> and the table is as before.
\<close>

theorem checkout_before_checkin:
  assumes "check_in_time ta = Some c" and "now < c" and "c - now \<le> 2 ^ 44"
  shows "\<exists>n. n \<le> 0
         \<and> \<bar>of_int n / 100 - of_int (now - c) / 3600000\<bar> \<le> (1 / 200 :: rat)
         \<and> fl (of_int n / 100) \<le> 0
         \<and> (now + 18000 < c \<longrightarrow> fl (of_int n / 100) < 0)
         \<and> (c - now < 359982000 \<longrightarrow> - 10000 < n)
         \<and> (359982000 < c - now \<longrightarrow> n \<le> - 10000)
         \<and> handleCheckOut (Some uid) (Some ta) now store =
             (if - 10000 < n
              then (None, map (\<lambda>r. if record_id r = record_id ta
                                   then r\<lparr>check_out_time := Some now,
                                          total_hours := Some (Fin (fl (of_int n / 100)))\<rparr>
                                   else r) store)
              else (Some numeric_field_overflow, store))"
proof -
  define d where "d = now - c"
  define x where "x = fl (fl (of_int d / of_int 3600000) * 100)"
  define n where "n = \<lfloor>x + 1 / 2\<rfloor>"
  define D :: rat where "D = of_int d"
  have d: "d < 0" "\<bar>now - c\<bar> \<le> 2 ^ 44" using assms(2,3) by (simp_all add: d_def)
  have n_eq: "n = \<lfloor>fl (fl (of_int (now - c) / of_int 3600000) * 100) + 1 / 2\<rfloor>"
    by (simp add: n_def x_def d_def)
  note c = handleCheckOut_cases [OF assms(1) d(2) n_eq]
  have near: "\<bar>of_int n - D / 36000\<bar> \<le> 1 / 2" using c(1) by (simp add: D_def d_def)
  have "(of_int d :: rat) / of_int 3600000 < 0" using d(1) by (simp add: divide_neg_pos)
  then have "fl (of_int d / of_int 3600000) < 0" by (rule fl_neg)
  then have "fl (of_int d / of_int 3600000) * 100 < 0" by (simp add: mult_neg_pos)
  then have x: "x < 0" unfolding x_def by (rule fl_neg)
  then have "x + 1 / 2 < of_int 1" by simp
  then have "\<lfloor>x + 1 / 2\<rfloor> < 1" by (simp only: floor_less_iff)
  then have n0: "n \<le> 0" by (simp add: n_def)
  then have abs_n: "\<bar>n\<bar> < 10000 \<longleftrightarrow> - 10000 < n" by linarith
  have "(of_int n :: rat) / 100 \<le> 0" using n0 by (simp add: divide_le_0_iff)
  then have f: "fl (of_int n / 100) \<le> 0" by (rule fl_nonpos)
  have neg: "fl (of_int n / 100) < 0" if "now + 18000 < c"
  proof -
    have "d < - 18000" using that by (simp add: d_def)
    then have "(of_int d :: rat) < of_int (- 18000)" by (simp only: of_int_less_iff)
    then have "D / 36000 < - 1 / 2" by (simp add: D_def)
    with near have "(of_int n :: rat) < 0" by linarith
    then have "(of_int n :: rat) / 100 < 0" by (simp add: divide_neg_pos)
    then show ?thesis by (rule fl_neg)
  qed
  have small: "- 10000 < n" if "c - now < 359982000"
  proof -
    have "- 359982000 < d" using that by (simp add: d_def)
    then have "(of_int (- 359982000) :: rat) < of_int d" by (simp only: of_int_less_iff)
    then have "- 19999 / 2 < D / 36000" by (simp add: D_def)
    with near have "- 10000 < (of_int n :: rat)" by linarith
    then have "(of_int (- 10000) :: rat) < of_int n" by simp
    then show ?thesis by (simp only: of_int_less_iff)
  qed
  have large: "n \<le> - 10000" if "359982000 < c - now"
  proof -
    have "d < - 359982000" using that by (simp add: d_def)
    then have "(of_int d :: rat) < of_int (- 359982000)" by (simp only: of_int_less_iff)
    then have "D / 36000 < - 19999 / 2" by (simp add: D_def)
    with near have "(of_int n :: rat) < - 9999" by linarith
    then have "(of_int n :: rat) < of_int (- 9999)" by simp
    then have "n < - 9999" by (simp only: of_int_less_iff)
    then show ?thesis by simp
  qed
  have "handleCheckOut (Some uid) (Some ta) now store =
             (if - 10000 < n
              then (None, map (\<lambda>r. if record_id r = record_id ta
                                   then r\<lparr>check_out_time := Some now,
                                          total_hours := Some (Fin (fl (of_int n / 100)))\<rparr>
                                   else r) store)
              else (Some numeric_field_overflow, store))"
    using c(3) [of uid store] by (simp only: abs_n)
  with n0 c(2) f neg small large show ?thesis by blast
qed

lemma checkOutHours_negative: "checkOutHours 1704186000000 1704182400000 = Fin (- 1)"
  by code_simp

lemma numeric_4_2_negative: "numeric_4_2 (Fin (- 1)) = Inr (Some (Fin (- 1)))"
  by code_simp

text \<open>A check-out at 08:00:00 on a record checked in at 09:00:00 of the same day.\<close>

theorem checkout_before_checkin_witness:
  "check_in_time demo_record = Some 1704186000000
   \<and> (1704182400000 :: int) < 1704186000000
   \<and> (1704186000000 - 1704182400000 :: int) \<le> 2 ^ 44
   \<and> (1704182400000 + 18000 :: int) < 1704186000000
   \<and> (1704186000000 - 1704182400000 :: int) < 359982000
   \<and> handleCheckOut (Some ''u1'') (Some demo_record) 1704182400000 [demo_record] =
       (None, [demo_record\<lparr>check_out_time := Some 1704182400000,
                           total_hours := Some (Fin (- 1))\<rparr>])"
proof -
  have h2: "(1704182400000 :: int) < 1704186000000" by simp
  have h3: "(1704186000000 - 1704182400000 :: int) \<le> 2 ^ 44" by simp
  from checkout_before_checkin [OF demo_check_in h2 h3, of "''u1''" "[demo_record]"]
    demo_check_in h2 h3
  show ?thesis
    by (simp add: handleCheckOut_eq [OF demo_check_in] checkOutHours_negative
        numeric_4_2_negative)
qed

text \<open>
  C3 as stated fails: the check-out one hour before the check-in is
  accepted, and \<open>total_hours = -1\<close> is written to the record.
\<close>

theorem negative_hours_stored:
  "handleCheckOut (Some ''u1'') (Some demo_record) 1704182400000 [demo_record] =
     (None, [demo_record\<lparr>check_out_time := Some 1704182400000,
                         total_hours := Some (Fin (- 1))\<rparr>])"
  by (simp add: handleCheckOut_eq [OF demo_check_in] checkOutHours_negative
      numeric_4_2_negative)

section \<open>Weekly trend and the order of the records\<close>

text \<open>
  The bucket of turn \<open>k\<close>, read at \<open>now\<close>: its day \<open>d\<close> is \<open>k\<close> days of local
  time before \<open>now\<close>; the bucket counts the records whose date is the UTC date
  of \<open>d\<close>, and its label is the local weekday of \<open>d\<close>.
\<close>

lemma trendBucket_eq:
  "trendBucket z now (Some records) headcount k =
     (case TimeClip (UTC z (LocalTime z now - k * msPerDay)) of
        None \<Rightarrow> Inl RangeError
      | Some d \<Rightarrow>
          Inr \<lparr>trend_day = weekdayShort z d,
               trend_present = int (length (filter
                  (\<lambda>a. date a = toISODate d
                        \<and> (status a = present \<or> status a = late)) records)),
               trend_absent = headcount - int (length (filter
                  (\<lambda>a. date a = toISODate d) records))\<rparr>)"
  by (simp add: trendBucket_def setDate_getDate Let_def conj_commute split: option.splits)

lemma trendLoop_cong:
  assumes "\<And>now k. trendBucket z now wd1 headcount k = trendBucket z now wd2 headcount k"
  shows "trendLoop z clock wd1 headcount i acc = trendLoop z clock wd2 headcount i acc"
  using assms
proof (induction z clock wd1 headcount i acc rule: trendLoop.induct)
  case (1 z clock wd1 headcount i acc)
  show ?case
  proof (cases "0 \<le> i")
    case True
    show ?thesis
    proof (cases "trendBucket z (clock i) wd1 headcount i")
      case (Inl e)
      with True 1(2) show ?thesis
        by (simp add: trendLoop.simps [of z clock _ headcount i acc])
    next
      case (Inr b)
      from 1(1) [OF True Inr 1(2)] True Inr 1(2) show ?thesis
        by (simp add: trendLoop.simps [of z clock _ headcount i acc])
    qed
  next
    case False
    then show ?thesis by (simp add: trendLoop.simps [of z clock _ headcount i acc])
  qed
qed

lemma trendLoop_Inr:
  assumes "\<And>k. 0 \<le> k \<Longrightarrow> k \<le> i \<Longrightarrow> trendBucket z (clock k) wd headcount k = Inr (f k)"
  shows "trendLoop z clock wd headcount i acc = Inr (acc @ map f (rev [0..i]))"
  using assms
proof (induction z clock wd headcount i acc rule: trendLoop.induct)
  case (1 z clock wd headcount i acc)
  show ?case
  proof (cases "0 \<le> i")
    case True
    then have u: "[0..i] = [0..i - 1] @ [i]" by (rule upto_rec2)
    have b: "trendBucket z (clock i) wd headcount i = Inr (f i)" using True by (simp add: 1(2))
    have "trendLoop z clock wd headcount (i - 1) (acc @ [f i])
        = Inr ((acc @ [f i]) @ map f (rev [0..i - 1]))"
      using True b by (rule 1(1)) (simp add: 1(2))
    with True b show ?thesis
      by (simp add: trendLoop.simps [of z clock wd headcount i acc] u)
  next
    case False
    then show ?thesis by (simp add: trendLoop.simps [of z clock wd headcount i acc])
  qed
qed

lemma upto_0_6: "rev [0..6] = [6, 5, 4, 3, 2, 1, 0 :: int]"
  by (simp add: upto_rec1)

text \<open>
  Where the offset of the zone never changes and the seven turns read the same
  instant \<open>now\<close> (with the week inside the range of \<open>Date\<close>), the buckets are
  those of the seven consecutive UTC calendar days that end with the day of
  \<open>now\<close>, the oldest first.
\<close>

lemma weekly_trend_fixed_zone:
  assumes "\<bar>now\<bar> + 6 * msPerDay \<le> 8640000000000000"
  shows "weeklyTrend (fixed_zone offset) (\<lambda>i. now) (Some records) headcount =
     Inr (map (\<lambda>k. \<lparr>trend_day = weekdayShort (fixed_zone offset) (now - k * msPerDay),
               trend_present = int (length (filter
                  (\<lambda>a. date a = toISODate (now - k * msPerDay)
                        \<and> (status a = present \<or> status a = late)) records)),
               trend_absent = headcount - int (length (filter
                  (\<lambda>a. date a = toISODate (now - k * msPerDay)) records))\<rparr>)
       [6, 5, 4, 3, 2, 1, 0])"
    and "Day (now - k * msPerDay) = Day now - k"
    and "toISODate (now - k * msPerDay) = toISODate ((Day now - k) * msPerDay)"
proof -
  have "Day (now - k * msPerDay) = Day ((Day now - k) * msPerDay)"
    by (simp add: Day_shift Day_def msPerDay_def)
  then show "toISODate (now - k * msPerDay) = toISODate ((Day now - k) * msPerDay)"
    by (rule toISODate_Day)
  show "Day (now - k * msPerDay) = Day now - k" by (rule Day_shift)
  have "trendBucket (fixed_zone offset) now (Some records) headcount j =
      Inr \<lparr>trend_day = weekdayShort (fixed_zone offset) (now - j * msPerDay),
           trend_present = int (length (filter
              (\<lambda>a. date a = toISODate (now - j * msPerDay)
                    \<and> (status a = present \<or> status a = late)) records)),
           trend_absent = headcount - int (length (filter
              (\<lambda>a. date a = toISODate (now - j * msPerDay)) records))\<rparr>"
    if "0 \<le> j" "j \<le> 6" for j
  proof -
    have "\<bar>now - j * msPerDay\<bar> \<le> \<bar>now\<bar> + 6 * msPerDay"
      using that by (simp add: msPerDay_def)
    with assms have "TimeClip (now - j * msPerDay) = Some (now - j * msPerDay)"
      by (simp add: TimeClip_def)
    then show ?thesis
      by (simp add: trendBucket_eq fixed_zone_LocalTime fixed_zone_UTC)
  qed
  then have "trendLoop (fixed_zone offset) (\<lambda>i. now) (Some records) headcount 6 [] =
     Inr ([] @ map (\<lambda>k. \<lparr>trend_day = weekdayShort (fixed_zone offset) (now - k * msPerDay),
               trend_present = int (length (filter
                  (\<lambda>a. date a = toISODate (now - k * msPerDay)
                        \<and> (status a = present \<or> status a = late)) records)),
               trend_absent = headcount - int (length (filter
                  (\<lambda>a. date a = toISODate (now - k * msPerDay)) records))\<rparr>)
       (rev [0..6]))"
    by (intro trendLoop_Inr)
  then show "weeklyTrend (fixed_zone offset) (\<lambda>i. now) (Some records) headcount =
     Inr (map (\<lambda>k. \<lparr>trend_day = weekdayShort (fixed_zone offset) (now - k * msPerDay),
               trend_present = int (length (filter
                  (\<lambda>a. date a = toISODate (now - k * msPerDay)
                        \<and> (status a = present \<or> status a = late)) records)),
               trend_absent = headcount - int (length (filter
                  (\<lambda>a. date a = toISODate (now - k * msPerDay)) records))\<rparr>)
       [6, 5, 4, 3, 2, 1, 0])"
    by (simp only: weeklyTrend_def upto_0_6 append_Nil)
qed

text \<open>
  Five employees; on 2 January 2024 three records, one of them with status
  \<open>absent\<close>: in a zone at UTC the last bucket has \<open>present = 2\<close> and
  \<open>absent = 2\<close>.
\<close>

definition demo_day :: "AttendanceRecord list" where
  "demo_day =
     [demo_record,
      demo_record\<lparr>record_id := ''r2'', user_id := ''u2'', status := absent\<rparr>,
      demo_record\<lparr>record_id := ''r3'', user_id := ''u4'', status := present\<rparr>]"

lemma weekly_trend_example:
  "map_sum id last (weeklyTrend (fixed_zone 0) (\<lambda>i. 1704216600000) (Some demo_day) 5) =
     Inr \<lparr>trend_day = ''Tue'', trend_present = 2, trend_absent = 2\<rparr>"
proof -
  have d: "toISODate 1704216600000 = ''2024-01-02''" by (simp add: date_eval)
  have w: "weekdayShort (fixed_zone 0) 1704216600000 = ''Tue''"
    by (simp add: weekdayShort_def getDay_def WeekDay_def fixed_zone_LocalTime Day_def
        msPerDay_def)
  have v: "\<bar>1704216600000 :: int\<bar> + 6 * msPerDay \<le> 8640000000000000"
    by (simp add: msPerDay_def)
  show ?thesis
    by (simp add: weekly_trend_fixed_zone(1) [OF v] d w demo_day_def demo_record_def)
qed

text \<open>
  The week of 12 March 2024 in New York, where daylight saving began on the
  10th. The dashboard is loaded at 2024-03-12T23:30:00Z, 19:30 local time.
\<close>

definition demo_march :: "AttendanceRecord list" where
  "demo_march =
     [\<lparr>record_id = ''r7'', user_id = ''u1'', date = ''2024-03-10'',
       check_in_time = Some 1710075600000, check_out_time = None,
       status = late, total_hours = Some (Fin 0), created_at = 1710075600000\<rparr>]"

lemmas new_york_week = LocalTime_def UTC_def new_york_2024_def msPerDay_def

lemma new_york_dates:
  "toISODate 1709771400000 = ''2024-03-07''" "toISODate 1709857800000 = ''2024-03-08''"
  "toISODate 1709944200000 = ''2024-03-09''" "toISODate 1710030600000 = ''2024-03-10''"
  "toISODate 1710113400000 = ''2024-03-10''" "toISODate 1710199800000 = ''2024-03-11''"
  "toISODate 1710286200000 = ''2024-03-12''"
  by (simp_all add: date_eval)

lemma new_york_weekdays:
  "weekdayShort new_york_2024 1709771400000 = ''Wed''"
  "weekdayShort new_york_2024 1709857800000 = ''Thu''"
  "weekdayShort new_york_2024 1709944200000 = ''Fri''"
  "weekdayShort new_york_2024 1710030600000 = ''Sat''"
  "weekdayShort new_york_2024 1710113400000 = ''Sun''"
  "weekdayShort new_york_2024 1710199800000 = ''Mon''"
  "weekdayShort new_york_2024 1710286200000 = ''Tue''"
  by (simp_all add: weekdayShort_def getDay_def WeekDay_def LocalTime_def new_york_2024_def
      Day_def msPerDay_def)

text \<open>
  C4, at that instant. The seven turns of the loop go back 6, 5, ..., 0 days of
  local time and take the UTC date of each instant. The instants before the
  change are at 00:30 UTC and the ones after it at 23:30 UTC, so the dates are
  7, 8, 9, 10, 10, 11 and 12 March: 10 March twice, and 6 March, the first of
  the seven calendar days that end with 12 March, not at all. The record of
  10 March is counted in two buckets, those labelled Sat and Sun.
\<close>

theorem weekly_trend_daylight_saving_week:
  "map (\<lambda>i. map_option toISODate
              (setDate new_york_2024 1710286200000 (getDate new_york_2024 1710286200000 - i)))
     [6, 5, 4, 3, 2, 1, 0] =
     [Some ''2024-03-07'', Some ''2024-03-08'', Some ''2024-03-09'', Some ''2024-03-10'',
      Some ''2024-03-10'', Some ''2024-03-11'', Some ''2024-03-12'']
   \<and> weeklyTrend new_york_2024 (\<lambda>i. 1710286200000) (Some demo_march) 5 =
       Inr [\<lparr>trend_day = ''Wed'', trend_present = 0, trend_absent = 5\<rparr>,
            \<lparr>trend_day = ''Thu'', trend_present = 0, trend_absent = 5\<rparr>,
            \<lparr>trend_day = ''Fri'', trend_present = 0, trend_absent = 5\<rparr>,
            \<lparr>trend_day = ''Sat'', trend_present = 1, trend_absent = 4\<rparr>,
            \<lparr>trend_day = ''Sun'', trend_present = 1, trend_absent = 4\<rparr>,
            \<lparr>trend_day = ''Mon'', trend_present = 0, trend_absent = 5\<rparr>,
            \<lparr>trend_day = ''Tue'', trend_present = 0, trend_absent = 5\<rparr>]"
proof -
  have "map (\<lambda>i. map_option toISODate
              (setDate new_york_2024 1710286200000 (getDate new_york_2024 1710286200000 - i)))
     [6, 5, 4, 3, 2, 1, 0] =
     [Some ''2024-03-07'', Some ''2024-03-08'', Some ''2024-03-09'', Some ''2024-03-10'',
      Some ''2024-03-10'', Some ''2024-03-11'', Some ''2024-03-12'']"
    by (simp add: setDate_getDate new_york_week TimeClip_def new_york_dates)
  moreover have "weeklyTrend new_york_2024 (\<lambda>i. 1710286200000) (Some demo_march) 5 =
       Inr [\<lparr>trend_day = ''Wed'', trend_present = 0, trend_absent = 5\<rparr>,
            \<lparr>trend_day = ''Thu'', trend_present = 0, trend_absent = 5\<rparr>,
            \<lparr>trend_day = ''Fri'', trend_present = 0, trend_absent = 5\<rparr>,
            \<lparr>trend_day = ''Sat'', trend_present = 1, trend_absent = 4\<rparr>,
            \<lparr>trend_day = ''Sun'', trend_present = 1, trend_absent = 4\<rparr>,
            \<lparr>trend_day = ''Mon'', trend_present = 0, trend_absent = 5\<rparr>,
            \<lparr>trend_day = ''Tue'', trend_present = 0, trend_absent = 5\<rparr>]"
    by (simp add: weeklyTrend_def trendLoop.simps trendBucket_eq new_york_week TimeClip_def
        new_york_dates new_york_weekdays demo_march_def)
  ultimately show ?thesis by (rule conjI)
qed

lemma length_filter_mset:
  "mset xs = mset ys \<Longrightarrow> length (filter P xs) = length (filter P ys)"
proof -
  assume "mset xs = mset ys"
  then have "mset (filter P xs) = mset (filter P ys)" by simp
  then show ?thesis by (rule mset_eq_length)
qed

text \<open>
  C8, as the code has it. On a permutation of the records the three status counts
  of the monthly statistics and the whole weekly trend are the same, in every
  zone and for every reading of the clock. (The sum of the hours is a
  left-to-right sum of doubles and is left out: it can change with the order.)
\<close>

theorem counts_order_independent:
  assumes "mset xs = mset ys"
  shows "stats_present (monthlyStats xs) = stats_present (monthlyStats ys)
       \<and> stats_absent (monthlyStats xs) = stats_absent (monthlyStats ys)
       \<and> stats_late (monthlyStats xs) = stats_late (monthlyStats ys)
       \<and> weeklyTrend z clock (Some xs) totalEmployees
           = weeklyTrend z clock (Some ys) totalEmployees"
proof -
  have "trendBucket z now (Some xs) totalEmployees k
      = trendBucket z now (Some ys) totalEmployees k" for now k
    by (simp add: trendBucket_eq length_filter_mset [OF assms] split: option.splits)
  then have "weeklyTrend z clock (Some xs) totalEmployees
      = weeklyTrend z clock (Some ys) totalEmployees"
    unfolding weeklyTrend_def by (rule trendLoop_cong)
  then show ?thesis by (simp add: monthlyStats_def length_filter_mset [OF assms])
qed

definition demo_hours :: "AttendanceRecord list" where
  "demo_hours =
     [demo_record\<lparr>total_hours := Some (Fin (fl (1 / 10)))\<rparr>,
      demo_record\<lparr>record_id := ''r2'', date := ''2024-01-03'',
                  total_hours := Some (Fin (fl (2 / 10)))\<rparr>,
      demo_record\<lparr>record_id := ''r3'', date := ''2024-01-04'',
                  total_hours := Some (Fin (fl (3 / 10)))\<rparr>]"

lemma demo_hours_perm: "mset (rev demo_hours) = mset demo_hours"
  by simp

theorem counts_order_independent_witness:
  "mset (rev demo_hours) = mset demo_hours
   \<and> stats_late (monthlyStats (rev demo_hours)) = 3
   \<and> stats_late (monthlyStats demo_hours) = 3"
  using counts_order_independent [OF demo_hours_perm]
  by (simp add: monthlyStats_def demo_hours_def demo_record_def)

lemma sum_forward:
  "num_add (num_add (num_add (Fin 0) (Fin (fl (1 / 10)))) (Fin (fl (2 / 10)))) (Fin (fl (3 / 10)))
     = Fin (1351079888211149 / 2251799813685248)"
  by code_simp

lemma sum_backward:
  "num_add (num_add (num_add (Fin 0) (Fin (fl (3 / 10)))) (Fin (fl (2 / 10)))) (Fin (fl (1 / 10)))
     = Fin (5404319552844595 / 9007199254740992)"
  by code_simp

lemma or_zero_Fin: "or_zero (Some (Fin x)) = Fin x"
  by (simp add: or_zero_def)

text \<open>
  C8 as stated fails on the sum of the hours: three records of 0.1, 0.2
  and 0.3 hours sum to 0.6000000000000001 in this order and to 0.6 in the
  reverse order.
\<close>

theorem total_hours_order_dependent:
  "mset (rev demo_hours) = mset demo_hours
   \<and> stats_totalHours (monthlyStats demo_hours) = Fin (1351079888211149 / 2251799813685248)
   \<and> stats_totalHours (monthlyStats (rev demo_hours)) = Fin (5404319552844595 / 9007199254740992)
   \<and> monthlyStats (rev demo_hours) \<noteq> monthlyStats demo_hours"
proof -
  have f: "stats_totalHours (monthlyStats demo_hours) = Fin (1351079888211149 / 2251799813685248)"
    using sum_forward by (simp add: monthlyStats_def demo_hours_def or_zero_Fin)
  have b: "stats_totalHours (monthlyStats (rev demo_hours)) = Fin (5404319552844595 / 9007199254740992)"
    using sum_backward by (simp add: monthlyStats_def demo_hours_def or_zero_Fin)
  have "stats_totalHours (monthlyStats (rev demo_hours)) \<noteq> stats_totalHours (monthlyStats demo_hours)"
    unfolding f b by simp
  then have "monthlyStats (rev demo_hours) \<noteq> monthlyStats demo_hours" by auto
  with f b show ?thesis by simp
qed

section \<open>The bars of the weekly trend at a head count of zero\<close>

text \<open>
  The width of a bar divides by \<open>stats.totalEmployees\<close> without a guard: at a
  head count of 0 it is \<open>NaN\<close> for a count of 0 and an infinity otherwise.
\<close>

lemma trendBarWidths_zero:
  "trendBarWidths 0 trend =
     map (\<lambda>day. (if trend_present day = 0 then NaN else inf_of_sign (trend_present day < 0),
                  if trend_absent day = 0 then NaN else inf_of_sign (trend_absent day < 0)))
       trend"
  by (simp add: trendBarWidths_def num_of_int_def inf_of_sign_def)

definition demo_manager :: Profile where
  "demo_manager =
     \<lparr>profile_id = ''u3'', name = ''Chen'', email = ''chen@example.com'', role = manager,
      employee_id = ''MGR001'', department = ''Engineering'', profile_created_at = 0\<rparr>"

lemma demo_week_days:
  "weekdayShort (fixed_zone 0) (1704216600000 - 6 * msPerDay) = ''Wed''"
  "weekdayShort (fixed_zone 0) (1704216600000 - 5 * msPerDay) = ''Thu''"
  "weekdayShort (fixed_zone 0) (1704216600000 - 4 * msPerDay) = ''Fri''"
  "weekdayShort (fixed_zone 0) (1704216600000 - 3 * msPerDay) = ''Sat''"
  "weekdayShort (fixed_zone 0) (1704216600000 - 2 * msPerDay) = ''Sun''"
  "weekdayShort (fixed_zone 0) (1704216600000 - 1 * msPerDay) = ''Mon''"
  "weekdayShort (fixed_zone 0) (1704216600000 - 0 * msPerDay) = ''Tue''"
  by (simp_all add: weekdayShort_def getDay_def WeekDay_def fixed_zone_LocalTime Day_def
      msPerDay_def)

text \<open>
  C5, where no profile has the role \<open>employee\<close>: the manager who has just
  registered opens the dashboard on 2 January 2024, before any employee has an
  account. The head count is 0. The percentage of the day is guarded and is 0.
  The weekly trend has its seven buckets, all with \<open>present = 0\<close> and
  \<open>absent = 0\<close>, and the width of each of the fourteen bars is computed as
  \<open>(0 / 0) * 100\<close>, which is \<open>NaN\<close>: a division with a zero divisor that is
  evaluated.
\<close>

theorem trend_bar_zero_divisor:
  "totalEmployeesOf (Some [demo_manager]) = 0
   \<and> todayPercentage (totalEmployeesOf (Some [demo_manager])) 0 = Fin 0
   \<and> weeklyTrend (fixed_zone 0) (\<lambda>i. 1704216600000) (Some [])
         (totalEmployeesOf (Some [demo_manager])) =
       Inr [\<lparr>trend_day = ''Wed'', trend_present = 0, trend_absent = 0\<rparr>,
            \<lparr>trend_day = ''Thu'', trend_present = 0, trend_absent = 0\<rparr>,
            \<lparr>trend_day = ''Fri'', trend_present = 0, trend_absent = 0\<rparr>,
            \<lparr>trend_day = ''Sat'', trend_present = 0, trend_absent = 0\<rparr>,
            \<lparr>trend_day = ''Sun'', trend_present = 0, trend_absent = 0\<rparr>,
            \<lparr>trend_day = ''Mon'', trend_present = 0, trend_absent = 0\<rparr>,
            \<lparr>trend_day = ''Tue'', trend_present = 0, trend_absent = 0\<rparr>]
   \<and> trendBarWidths (totalEmployeesOf (Some [demo_manager]))
         [\<lparr>trend_day = ''Wed'', trend_present = 0, trend_absent = 0\<rparr>,
          \<lparr>trend_day = ''Thu'', trend_present = 0, trend_absent = 0\<rparr>,
          \<lparr>trend_day = ''Fri'', trend_present = 0, trend_absent = 0\<rparr>,
          \<lparr>trend_day = ''Sat'', trend_present = 0, trend_absent = 0\<rparr>,
          \<lparr>trend_day = ''Sun'', trend_present = 0, trend_absent = 0\<rparr>,
          \<lparr>trend_day = ''Mon'', trend_present = 0, trend_absent = 0\<rparr>,
          \<lparr>trend_day = ''Tue'', trend_present = 0, trend_absent = 0\<rparr>] =
       [(NaN, NaN), (NaN, NaN), (NaN, NaN), (NaN, NaN), (NaN, NaN), (NaN, NaN), (NaN, NaN)]"
proof -
  have t: "totalEmployeesOf (Some [demo_manager]) = 0"
    by (simp add: totalEmployeesOf_def demo_manager_def)
  have v: "\<bar>1704216600000 :: int\<bar> + 6 * msPerDay \<le> 8640000000000000"
    by (simp add: msPerDay_def)
  have w: "weeklyTrend (fixed_zone 0) (\<lambda>i. 1704216600000) (Some []) 0 =
       Inr [\<lparr>trend_day = ''Wed'', trend_present = 0, trend_absent = 0\<rparr>,
            \<lparr>trend_day = ''Thu'', trend_present = 0, trend_absent = 0\<rparr>,
            \<lparr>trend_day = ''Fri'', trend_present = 0, trend_absent = 0\<rparr>,
            \<lparr>trend_day = ''Sat'', trend_present = 0, trend_absent = 0\<rparr>,
            \<lparr>trend_day = ''Sun'', trend_present = 0, trend_absent = 0\<rparr>,
            \<lparr>trend_day = ''Mon'', trend_present = 0, trend_absent = 0\<rparr>,
            \<lparr>trend_day = ''Tue'', trend_present = 0, trend_absent = 0\<rparr>]"
    by (simp only: weekly_trend_fixed_zone(1) [OF v] demo_week_days list.map filter.simps
        list.size of_nat_0 diff_self)
  show ?thesis
    by (simp only: t w) (simp add: todayPercentage_def trendBarWidths_zero)
qed

section \<open>The calendar grid\<close>

text \<open>
  C7, as the code has it. Let \<open>y\<close> and \<open>m\<close> be the local year and month of
  \<open>currentMonth\<close>, and \<open>firstLocal\<close> and \<open>lastLocal\<close> the local midnights of
  the first and of the last day of that month. Where \<open>y\<close> is outside 0 to 99,
  the two instants that \<open>new Date(year, month, 1)\<close> and
  \<open>new Date(year, month + 1, 0)\<close> denote are within the range of \<open>Date\<close>, and
  each of them is, in local time, on the day it was made for (the zone does not
  skip that day), the grid is \<open>w\<close> nulls followed by the day numbers 1 to the
  length of the month, where \<open>w\<close> is the weekday (0 = Sunday) of the first day of
  the month.
\<close>

theorem calendar_grid:
  assumes "y = getFullYear z currentMonth" and "m = getMonth z currentMonth"
    and "firstLocal = MakeDate (MakeDay y m 1) 0"
    and "lastLocal = MakeDate (MakeDay y (m + 1) 0) 0"
    and "\<not> (0 \<le> y \<and> y \<le> 99)"
    and "\<bar>UTC z firstLocal\<bar> \<le> 8640000000000000"
    and "\<bar>UTC z lastLocal\<bar> \<le> 8640000000000000"
    and "Day (LocalTime z (UTC z firstLocal)) = Day firstLocal"
    and "Day (LocalTime z (UTC z lastLocal)) = Day lastLocal"
  shows "getDaysInMonth z currentMonth =
           replicate (nat (WeekDay firstLocal)) None @ map Some [1..monthLength y m]
       \<and> YearFromTime firstLocal = y \<and> MonthFromTime firstLocal = m
       \<and> DateFromTime firstLocal = 1
       \<and> 0 \<le> WeekDay firstLocal \<and> WeekDay firstLocal < 7"
proof -
  have m: "0 \<le> m" "m < 12" using month_range by (simp_all add: assms(2) getMonth_def)
  have y: "MakeFullYear (getFullYear z currentMonth) = y"
    using assms(5) by (auto simp: MakeFullYear_def assms(1))
  have f: "TimeClip (UTC z (MakeDate (MakeDay y m 1) 0)) = Some (UTC z firstLocal)"
    using assms(6) by (simp add: TimeClip_def assms(3))
  have l: "TimeClip (UTC z (MakeDate (MakeDay y (m + 1) 0) 0)) = Some (UTC z lastLocal)"
    using assms(7) by (simp add: TimeClip_def assms(4))
  have w: "WeekDay (LocalTime z (UTC z firstLocal)) = WeekDay firstLocal"
    using assms(8) by (rule WeekDay_Day)
  have "DateFromTime (LocalTime z (UTC z lastLocal)) = DateFromTime lastLocal"
    using assms(9) by (rule DateFromTime_Day)
  also have "\<dots> = monthLength y m" unfolding assms(4) using m by (rule last_of_month)
  finally have d: "DateFromTime (LocalTime z (UTC z lastLocal)) = monthLength y m" .
  have "getDaysInMonth z currentMonth =
      replicate (nat (WeekDay firstLocal)) None @ map Some [1..monthLength y m]"
    by (simp add: getDaysInMonth_eq Let_def y assms(2) [symmetric] f l w d)
  moreover have "YearFromTime firstLocal = y \<and> MonthFromTime firstLocal = m
       \<and> DateFromTime firstLocal = 0 + 1"
    unfolding assms(3) using m by (intro first_of_month) (simp_all add: msPerDay_def)
  moreover have "0 \<le> WeekDay t \<and> WeekDay t < 7" for t by (simp add: WeekDay_def)
  ultimately show ?thesis by simp
qed

lemmas month_eval = getFullYear_def getMonth_def YearFromTime_def
  MonthFromTime_def DayWithinYear_def InLeapYear_def DaysInYear_def DayFromYear_def
  Day_def msPerDay_def yearUp.simps Let_def

lemmas day_eval = WeekDay_def MakeDate_def MakeDay_def monthStart_def DaysInYear_def
  DayFromYear_def Day_def msPerDay_def

text \<open>
  March 2024 in New York, the month in which daylight saving begins: the 1st is
  a Friday, the month has 31 days.
\<close>

theorem calendar_grid_witness:
  "2024 = getFullYear new_york_2024 1710286200000
   \<and> 2 = getMonth new_york_2024 1710286200000
   \<and> (1709251200000 :: int) = MakeDate (MakeDay 2024 2 1) 0
   \<and> (1711843200000 :: int) = MakeDate (MakeDay 2024 (2 + 1) 0) 0
   \<and> UTC new_york_2024 1709251200000 = 1709269200000
   \<and> UTC new_york_2024 1711843200000 = 1711857600000
   \<and> LocalTime new_york_2024 1709269200000 = 1709251200000
   \<and> LocalTime new_york_2024 1711857600000 = 1711843200000
   \<and> getDaysInMonth new_york_2024 1710286200000 = replicate 5 None @ map Some [1..31]"
proof -
  have lt: "LocalTime new_york_2024 1710286200000 = 1710271800000"
    by (simp add: LocalTime_def new_york_2024_def)
  have y: "2024 = getFullYear new_york_2024 1710286200000"
    by (simp add: getFullYear_def lt) (simp add: month_eval)
  have m: "2 = getMonth new_york_2024 1710286200000"
    by (simp add: getMonth_def lt) (simp add: month_eval)
  have f: "(1709251200000 :: int) = MakeDate (MakeDay 2024 2 1) 0" by (simp add: day_eval)
  have l: "(1711843200000 :: int) = MakeDate (MakeDay 2024 (2 + 1) 0) 0" by (simp add: day_eval)
  have uf: "UTC new_york_2024 1709251200000 = 1709269200000"
    by (simp add: UTC_def new_york_2024_def)
  have ul: "UTC new_york_2024 1711843200000 = 1711857600000"
    by (simp add: UTC_def new_york_2024_def)
  have lf: "LocalTime new_york_2024 1709269200000 = 1709251200000"
    by (simp add: LocalTime_def new_york_2024_def)
  have ll: "LocalTime new_york_2024 1711857600000 = 1711843200000"
    by (simp add: LocalTime_def new_york_2024_def)
  have h5: "\<not> (0 \<le> (2024 :: int) \<and> (2024 :: int) \<le> 99)" by simp
  have h6: "\<bar>UTC new_york_2024 1709251200000\<bar> \<le> 8640000000000000" by (simp add: uf)
  have h7: "\<bar>UTC new_york_2024 1711843200000\<bar> \<le> 8640000000000000" by (simp add: ul)
  have h8: "Day (LocalTime new_york_2024 (UTC new_york_2024 1709251200000)) = Day 1709251200000"
    by (simp add: uf lf)
  have h9: "Day (LocalTime new_york_2024 (UTC new_york_2024 1711843200000)) = Day 1711843200000"
    by (simp add: ul ll)
  have w: "WeekDay 1709251200000 = 5" by (simp add: WeekDay_def Day_def msPerDay_def)
  have n: "monthLength 2024 2 = 31" by (simp add: monthLength_def)
  from calendar_grid [OF y m f l h5 h6 h7 h8 h9] y m f l uf ul lf ll
  show ?thesis by (simp add: w n)
qed

lemma september_275760:
  "MakeDate (MakeDay 275760 8 1) 0 = 8639998963200000"
  "MakeDate (MakeDay 275760 9 0) 0 = 8640001468800000"
  by (simp_all add: day_eval)

text \<open>
  C7 as stated fails at the end of the range of \<open>Date\<close>, whose last instant
  is 13 September 275760, 00:00 UTC. Shown in a zone at UTC, September 275760
  begins on a Monday and has 30 days; its first day is a valid \<open>Date\<close>, its last
  day is beyond the range, so \<open>new Date(year, month + 1, 0)\<close> is an Invalid Date,
  \<open>daysInMonth\<close> is \<open>NaN\<close>, and the grid is the one leading null with no day
  number after it.
\<close>

theorem calendar_grid_beyond_date_range:
  "getFullYear (fixed_zone 0) 8639998963200000 = 275760
   \<and> getMonth (fixed_zone 0) 8639998963200000 = 8
   \<and> newDate (fixed_zone 0) 275760 8 1 = Some 8639998963200000
   \<and> getDay (fixed_zone 0) 8639998963200000 = 1
   \<and> monthLength 275760 8 = 30
   \<and> newDate (fixed_zone 0) 275760 (8 + 1) 0 = None
   \<and> getDaysInMonth (fixed_zone 0) 8639998963200000 = [None]
   \<and> getDaysInMonth (fixed_zone 0) 8639998963200000 \<noteq>
       replicate (nat (getDay (fixed_zone 0) 8639998963200000)) None
         @ map Some [1..monthLength 275760 8]"
proof -
  have "YearFromTime (MakeDate (MakeDay 275760 8 1) 0) = 275760
       \<and> MonthFromTime (MakeDate (MakeDay 275760 8 1) 0) = 8
       \<and> DateFromTime (MakeDate (MakeDay 275760 8 1) 0) = 0 + 1"
    by (intro first_of_month) (simp_all add: msPerDay_def)
  then have ym: "YearFromTime 8639998963200000 = 275760" "MonthFromTime 8639998963200000 = 8"
    by (simp_all add: september_275760)
  have y: "getFullYear (fixed_zone 0) 8639998963200000 = 275760"
    by (simp add: getFullYear_def fixed_zone_LocalTime ym)
  have m: "getMonth (fixed_zone 0) 8639998963200000 = 8"
    by (simp add: getMonth_def fixed_zone_LocalTime ym)
  have f: "newDate (fixed_zone 0) 275760 8 1 = Some 8639998963200000"
    by (simp add: newDate_def MakeFullYear_def september_275760 fixed_zone_UTC TimeClip_def)
  have l: "newDate (fixed_zone 0) 275760 9 0 = None"
    by (simp add: newDate_def MakeFullYear_def september_275760 fixed_zone_UTC TimeClip_def)
  have w: "getDay (fixed_zone 0) 8639998963200000 = 1"
    by (simp add: getDay_def fixed_zone_LocalTime WeekDay_def Day_def msPerDay_def)
  have n: "monthLength 275760 8 = 30" by (simp add: monthLength_def)
  have g: "getDaysInMonth (fixed_zone 0) 8639998963200000 = [None]"
    by (simp add: getDaysInMonth_def Let_def y m f l w pushNulls_eq pushDays_NaN)
  show ?thesis by (simp add: y m f l w n g)
qed

text \<open>
  The years 0 to 99 are left out above: \<open>new Date(year, month, 1)\<close> reads them
  as 1900 to 1999. For December of the year 99, shown in a zone at UTC, the
  first day of the month is a Tuesday (weekday 2), and the function returns the
  grid of December 1999, with three leading nulls.
\<close>

lemma two_digit_year_grid:
  "getFullYear (fixed_zone 0) (- 59012928000000) = 99
   \<and> getMonth (fixed_zone 0) (- 59012928000000) = 11
   \<and> WeekDay (MakeDate (MakeDay 99 11 1) 0) = 2
   \<and> getDaysInMonth (fixed_zone 0) (- 59012928000000) = replicate 3 None @ map Some [1..31]"
proof -
  have y: "getFullYear (fixed_zone 0) (- 59012928000000) = 99"
    by (simp add: getFullYear_def fixed_zone_LocalTime) (simp add: month_eval)
  have m: "getMonth (fixed_zone 0) (- 59012928000000) = 11"
    by (simp add: getMonth_def fixed_zone_LocalTime) (simp add: month_eval)
  have w: "WeekDay (MakeDate (MakeDay 99 11 1) 0) = 2" by (simp add: day_eval)
  have f: "MakeDate (MakeDay 1999 11 1) 0 = 944006400000"
    "MakeDate (MakeDay 1999 12 0) 0 = 946598400000" by (simp_all add: day_eval)
  have w': "WeekDay 944006400000 = 3" by (simp add: WeekDay_def Day_def msPerDay_def)
  have "DateFromTime (MakeDate (MakeDay 1999 (11 + 1) 0) 0) = monthLength 1999 11"
    by (rule last_of_month) simp_all
  then have d: "DateFromTime 946598400000 = 31" by (simp add: f monthLength_def)
  have g: "getDaysInMonth (fixed_zone 0) (- 59012928000000) = replicate 3 None @ map Some [1..31]"
    by (simp add: getDaysInMonth_eq y m MakeFullYear_def f fixed_zone_UTC fixed_zone_LocalTime
        TimeClip_def w' d)
  from y m w g show ?thesis by simp
qed

section \<open>The CSV report read back\<close>

text \<open>
  The standard the report is read by: RFC 4180, with the line feed the report
  uses as the line break. A field is bare, or enclosed in double quotes; inside
  the quotes a comma and a line break are data and a double quote is written
  twice. A double quote in a bare field, a character other than a comma or a line
  break after the closing quote, and the end of the text inside the quotes are
  errors (\<open>None\<close>). The state is the field being read, the fields of the record
  so far, and the records so far.
\<close>

datatype csv_state = field_start | in_bare | in_quoted | after_quote

fun parse_csv ::
  "csv_state \<Rightarrow> string \<Rightarrow> string list \<Rightarrow> string list list \<Rightarrow> string
     \<Rightarrow> string list list option" where
  "parse_csv st fld row rows [] =
     (if st = in_quoted then None else Some (rows @ [row @ [fld]]))"
| "parse_csv field_start fld row rows (c # cs) =
     (if c = CHR 0x22 then parse_csv in_quoted [] row rows cs
      else if c = CHR '','' then parse_csv field_start [] (row @ [fld]) rows cs
      else if c = CHR 0x0A then parse_csv field_start [] [] (rows @ [row @ [fld]]) cs
      else parse_csv in_bare [c] row rows cs)"
| "parse_csv in_bare fld row rows (c # cs) =
     (if c = CHR 0x22 then None
      else if c = CHR '','' then parse_csv field_start [] (row @ [fld]) rows cs
      else if c = CHR 0x0A then parse_csv field_start [] [] (rows @ [row @ [fld]]) cs
      else parse_csv in_bare (fld @ [c]) row rows cs)"
| "parse_csv in_quoted fld row rows (c # cs) =
     (if c = CHR 0x22 then parse_csv after_quote fld row rows cs
      else parse_csv in_quoted (fld @ [c]) row rows cs)"
| "parse_csv after_quote fld row rows (c # cs) =
     (if c = CHR 0x22 then parse_csv in_quoted (fld @ [c]) row rows cs
      else if c = CHR '','' then parse_csv field_start [] (row @ [fld]) rows cs
      else if c = CHR 0x0A then parse_csv field_start [] [] (rows @ [row @ [fld]]) cs
      else None)"

definition rfc4180_parse :: "string \<Rightarrow> string list list option" where
  "rfc4180_parse text = parse_csv field_start [] [] [] text"

lemma in_quoted_run:
  "CHR 0x22 \<notin> set cell \<Longrightarrow>
   parse_csv in_quoted acc row rows (cell @ CHR 0x22 # rest)
     = parse_csv after_quote (acc @ cell) row rows rest"
  by (induction cell arbitrary: acc) auto

lemma quoted_cell:
  "CHR 0x22 \<notin> set cell \<Longrightarrow>
   parse_csv field_start fld row rows (quoteCell cell @ rest)
     = parse_csv after_quote cell row rows rest"
  using in_quoted_run [of cell "[]" row rows rest] by (simp add: quoteCell_def)

lemma quoted_row:
  "\<forall>cell \<in> set (c # cs). CHR 0x22 \<notin> set cell \<Longrightarrow>
   parse_csv field_start fld row rows (join '','' (map quoteCell (c # cs)) @ rest)
     = parse_csv after_quote (last (c # cs)) (row @ butlast (c # cs)) rows rest"
proof (induction cs arbitrary: c row fld)
  case Nil
  then show ?case by (simp add: quoted_cell)
next
  case (Cons c' cs)
  have "parse_csv field_start fld row rows
          (join '','' (map quoteCell (c # c' # cs)) @ rest)
      = parse_csv after_quote c row rows
          (CHR '','' # join '','' (map quoteCell (c' # cs)) @ rest)"
    using Cons.prems by (simp add: quoted_cell)
  also have "\<dots> = parse_csv field_start [] (row @ [c]) rows
          (join '','' (map quoteCell (c' # cs)) @ rest)"
    by simp
  also have "\<dots> = parse_csv after_quote (last (c' # cs)) ((row @ [c]) @ butlast (c' # cs)) rows rest"
    using Cons.prems by (intro Cons.IH) simp
  finally show ?case by simp
qed

lemma join_lines: "join sep (x # xs) = x @ concat (map (\<lambda>y. sep @ y) xs)"
  by (induction xs arbitrary: x) auto

lemma quoted_rows:
  assumes "\<forall>r \<in> set rs. r \<noteq> [] \<and> (\<forall>cell \<in> set r. CHR 0x22 \<notin> set cell)"
    and "st = in_bare \<or> st = after_quote"
  shows "parse_csv st fld row rows
           (concat (map (\<lambda>y. [CHR 0x0A] @ y) (map (\<lambda>r. join '','' (map quoteCell r)) rs)))
         = Some (rows @ [row @ [fld]] @ rs)"
  using assms
proof (induction rs arbitrary: st fld row rows)
  case Nil
  then show ?case by auto
next
  case (Cons r rs)
  then obtain c cs where r: "r = c # cs" by (cases r) auto
  let ?rest = "concat (map (\<lambda>y. [CHR 0x0A] @ y) (map (\<lambda>r. join '','' (map quoteCell r)) rs))"
  have "parse_csv st fld row rows
          (concat (map (\<lambda>y. [CHR 0x0A] @ y) (map (\<lambda>r. join '','' (map quoteCell r)) (r # rs))))
      = parse_csv field_start [] [] (rows @ [row @ [fld]])
          (join '','' (map quoteCell (c # cs)) @ ?rest)"
    using Cons.prems(2) by (auto simp: r)
  also have "\<dots> = parse_csv after_quote (last (c # cs)) ([] @ butlast (c # cs))
          (rows @ [row @ [fld]]) ?rest"
    using Cons.prems(1) by (intro quoted_row) (simp add: r)
  also have "\<dots> = Some ((rows @ [row @ [fld]]) @ [([] @ butlast (c # cs)) @ [last (c # cs)]] @ rs)"
    using Cons.prems(1) by (intro Cons.IH) simp_all
  also have "([] @ butlast (c # cs)) @ [last (c # cs)] = r"
    unfolding r by (simp only: append_Nil append_butlast_last_id list.distinct(2) not_False_eq_True)
  finally show ?case by simp
qed

lemma header_line:
  "parse_csv field_start [] [] [] (join '','' headers @ rest)
     = parse_csv in_bare ''Status'' (butlast headers) [] rest"
  by (simp add: headers_def)

text \<open>
  A report whose cells hold no double quote is read back as the header and the
  cells, commas and line breaks in the cells included.
\<close>

lemma csv_roundtrip_without_quotes:
  assumes "\<forall>r \<in> set rows. r \<noteq> [] \<and> (\<forall>cell \<in> set r. CHR 0x22 \<notin> set cell)"
  shows "rfc4180_parse (csvContent rows) = Some (headers # rows)"
proof -
  have "rfc4180_parse (csvContent rows)
      = parse_csv in_bare ''Status'' (butlast headers) []
          (concat (map (\<lambda>y. [CHR 0x0A] @ y) (map (\<lambda>r. join '','' (map quoteCell r)) rows)))"
    by (simp only: rfc4180_parse_def csvContent_def join_lines header_line)
  also have "\<dots> = Some ([] @ [butlast headers @ [''Status'']] @ rows)"
    using assms by (intro quoted_rows) simp_all
  also have "butlast headers @ [''Status''] = headers" by (simp add: headers_def)
  finally show ?thesis by simp
qed

lemma export_roundtrip_without_quotes:
  assumes "\<forall>rp \<in> set attendance. \<forall>cell \<in> set (csvCells fmt shw rp). CHR 0x22 \<notin> set cell"
  shows "rfc4180_parse (exportToCSV fmt shw attendance)
           = Some (headers # map (csvCells fmt shw) attendance)"
proof -
  have "csvCells fmt shw rp \<noteq> []" for rp by (simp add: csvCells_def Let_def)
  with assms show ?thesis
    unfolding exportToCSV_def by (intro csv_roundtrip_without_quotes) auto
qed

definition demo_quoted_profile :: Profile where
  "demo_quoted_profile =
     \<lparr>profile_id = ''u1'',
      name = ''Dwayne '' @ [CHR 0x22] @ ''The Rock'' @ [CHR 0x22] @ '' Johnson'',
      email = ''rock@example.com'', role = employee,
      employee_id = ''EMP001'', department = ''R, D'', profile_created_at = 0\<rparr>"

text \<open>
  C6. The report does not double a double quote inside a cell, so a cell that
  holds one is not read back. For an employee named \<open>Dwayne "The Rock" Johnson\<close>
  the row starts \<open>"Dwayne "The Rock" Johnson",\<close> and the reader fails after the
  second quote.
\<close>

theorem csv_quote_not_escaped:
  "rfc4180_parse (exportToCSV (\<lambda>t. ''1/2/2024, 9:00:00 AM'') (\<lambda>x. ''0'')
       [(demo_record, demo_quoted_profile)]) = None
   \<and> rfc4180_parse (exportToCSV (\<lambda>t. ''1/2/2024, 9:00:00 AM'') (\<lambda>x. ''0'')
       [(demo_record, demo_quoted_profile\<lparr>name := ''Dwayne Johnson''\<rparr>)])
     = Some [headers,
             [''Dwayne Johnson'', ''EMP001'', ''R, D'', ''2024-01-02'',
              ''1/2/2024, 9:00:00 AM'', ''-'', ''0'', ''late'']]"
  by (simp add: rfc4180_parse_def exportToCSV_def csvContent_def csvCells_def quoteCell_def
      demo_record_def demo_quoted_profile_def headers_def statusString_def or_zero_def)

end
